theory Spec2Isabelle
  imports Main "HOL-Library.Word" "HOL-Library.AList"
begin

unbundle bit_operations_syntax

section \<open>JavaScript values\<close>

text \<open>
  The kernel is TypeScript. The parts of the language and of its standard library that
  \<open>Process.ts\<close> relies on are written out here: thrown errors, numbers used as descriptor
  handles, \<open>ArrayBuffer.slice\<close>, strings, the UTF-8 \<open>TextDecoder\<close> and the two regular
  expressions of the line editor.
\<close>

subsection \<open>Errors\<close>

text \<open>
  The error classes imported from \<open>Error.ts\<close>. \<open>EEXIST\<close> is only ever raised by the storage
  backend; \<open>TypeError\<close> is what JavaScript throws when \<open>null\<close> is indexed.
\<close>

datatype error =
    EBADFD | ENOENT | ENOTDIR | EISDIR | EIO | ENOTEMPTY | ELIBBAD | EINVAL | EACCES
  | EEXIST | TypeError

subsection \<open>Numbers\<close>

text \<open>
  A JavaScript number is a double. The numbers \<open>Process.ts\<close> computes with are whole
  numbers (offsets, counts, lengths, handles) and are kept as integers here; fractions
  are not modelled. A sum is the exact sum rounded to the nearest double, that is to 53
  significant bits, a tie going to the neighbour with the even significand: \<open>to_double\<close>
  is that rounding and \<open>js_plus\<close> is \<open>+\<close>. A sum too large for a double is an infinity;
  the only sum here that can be so large is the end index \<open>fdd.offset + count\<close> of a
  \<open>slice\<close>, which treats it like every index beyond the buffer.
\<close>

fun bit_length :: "nat \<Rightarrow> nat" where
  "bit_length n = (if n = 0 then 0 else Suc (bit_length (n div 2)))"

declare bit_length.simps [simp del]

definition to_double :: "int \<Rightarrow> int" where
  "to_double x =
    (let n = nat \<bar>x\<bar>;
         e = bit_length n - 53;
         q = n div 2 ^ e;
         r = n mod 2 ^ e;
         m = (if 2 ^ e < 2 * r \<or> (2 ^ e = 2 * r \<and> odd q) then q + 1 else q) * 2 ^ e
     in if x < 0 then - int m else int m)"

definition js_plus :: "int \<Rightarrow> int \<Rightarrow> int" where
  "js_plus a b = to_double (a + b)"

subsection \<open>Numbers as descriptor handles\<close>

text \<open>
  The descriptor table \<open>this.fd\<close> is a JavaScript array used as an object: its keys are the
  property names of the handles. Besides integers, \<open>_createFileDescriptor\<close> can produce the
  numbers \<open>-Infinity\<close> (\<open>Math.max()\<close> of no arguments) and \<open>NaN\<close> (\<open>parseInt\<close> of the key
  \<open>"-Infinity"\<close> or \<open>"NaN"\<close>), which are then stored under the keys of those names. The
  name of a whole number is its decimal digits, which holds of numbers below \<open>1e21\<close> in
  magnitude; the handles of the model are taken in that range.
\<close>

datatype fdnum = Fd int | NegInfinity | NaN

fun nat_toString :: "nat \<Rightarrow> string" where
  "nat_toString n =
    (if n < 10 then [''0123456789'' ! n]
     else nat_toString (n div 10) @ [''0123456789'' ! (n mod 10)])"

declare nat_toString.simps [simp del]

definition int_toString :: "int \<Rightarrow> string" where
  "int_toString i = (if i < 0 then CHR ''-'' # nat_toString (nat (- i)) else nat_toString (nat i))"

definition fdnum_toString :: "fdnum \<Rightarrow> string" where
  "fdnum_toString n =
    (case n of Fd i \<Rightarrow> int_toString i | NegInfinity \<Rightarrow> ''-Infinity'' | NaN \<Rightarrow> ''NaN'')"

text \<open>\<open>parseInt\<close> of a key of the table: of the name of an integer, or of a name without digits.\<close>

definition parseInt_key :: "fdnum \<Rightarrow> fdnum" where
  "parseInt_key k = (case k of Fd i \<Rightarrow> Fd i | NegInfinity \<Rightarrow> NaN | NaN \<Rightarrow> NaN)"

fun max2 :: "fdnum \<Rightarrow> fdnum \<Rightarrow> fdnum" where
  "max2 NaN _ = NaN"
| "max2 _ NaN = NaN"
| "max2 NegInfinity y = y"
| "max2 x NegInfinity = x"
| "max2 (Fd i) (Fd j) = Fd (max i j)"

definition Math_max :: "fdnum list \<Rightarrow> fdnum" where
  "Math_max xs = foldl max2 NegInfinity xs"

definition plus_one :: "fdnum \<Rightarrow> fdnum" where
  "plus_one n = (case n of Fd i \<Rightarrow> Fd (js_plus i 1) | NegInfinity \<Rightarrow> NegInfinity | NaN \<Rightarrow> NaN)"

subsection \<open>Byte buffers\<close>

text \<open>
  \<open>ArrayBuffer.prototype.slice(begin, end)\<close>: a negative index counts from the end, both
  indices are clamped to the buffer, and an \<open>end\<close> that is \<open>undefined\<close> or \<open>Infinity\<close>
  (here \<open>None\<close>) is the length.
\<close>

type_synonym byte = "8 word"
type_synonym ArrayBuffer = "byte list"

definition slice :: "ArrayBuffer \<Rightarrow> int \<Rightarrow> int option \<Rightarrow> ArrayBuffer" where
  "slice buf begin end =
    (let len = int (length buf);
         first = (if begin < 0 then max (len + begin) 0 else min begin len);
         final = (case end of
                    None \<Rightarrow> len
                  | Some e \<Rightarrow> if e < 0 then max (len + e) 0 else min e len)
     in take (nat (max (final - first) 0)) (drop (nat first) buf))"

text \<open>
  Modelled from the spec: \<open>concatArrayBuffer\<close> belongs to \<open>Utils.ts\<close>, which is not among
  the sources. \<open>write\<close> builds the new content of a file with it, from the bytes before
  the offset, the bytes written and the bytes after, so it joins its arguments in order.
\<close>

definition concatArrayBuffer :: "ArrayBuffer list \<Rightarrow> ArrayBuffer" where
  "concatArrayBuffer bufs = concat bufs"

subsection \<open>Strings\<close>

text \<open>
  The line editor works on JavaScript strings. A string is kept as the list of its code
  points, which is what the spread \<open>[...str]\<close> and the \<open>u\<close>-flagged regular expressions see;
  \<open>str.length\<close> counts UTF-16 code units, two for a code point beyond the basic plane.
  \<open>TextDecoder\<close> never yields a lone surrogate, so every string here is well formed.
\<close>

type_synonym codepoint = nat
type_synonym jsstring = "codepoint list"

definition js_length :: "jsstring \<Rightarrow> nat" where
  "js_length str = sum_list (map (\<lambda>c. if 0x10000 \<le> c then 2 else 1) str)"

definition charCodeAt0 :: "codepoint \<Rightarrow> nat" where
  "charCodeAt0 c = (if 0x10000 \<le> c then 0xD800 + (c - 0x10000) div 0x400 else c)"

text \<open>The decimal digits of a length, as a template literal prints it.\<close>

fun digits :: "nat \<Rightarrow> jsstring" where
  "digits n = (if n < 10 then [48 + n] else digits (n div 10) @ [48 + n mod 10])"

declare digits.simps [simp del]

text \<open>
  \<open>new TextDecoder("utf-8").decode(bytes)\<close>: the decoder of the Encoding Standard. A
  malformed sequence yields U+FFFD and the offending byte is read again as a lead byte; a
  byte order mark at the start is dropped.
\<close>

datatype utf8_state = Idle | Need nat codepoint nat nat

definition utf8_lead :: "nat \<Rightarrow> jsstring \<times> utf8_state" where
  "utf8_lead b =
    (if b \<le> 0x7F then ([b], Idle)
     else if 0xC2 \<le> b \<and> b \<le> 0xDF then ([], Need 1 (b AND 0x1F) 0x80 0xBF)
     else if 0xE0 \<le> b \<and> b \<le> 0xEF then
       ([], Need 2 (b AND 0xF) (if b = 0xE0 then 0xA0 else 0x80) (if b = 0xED then 0x9F else 0xBF))
     else if 0xF0 \<le> b \<and> b \<le> 0xF4 then
       ([], Need 3 (b AND 0x7) (if b = 0xF0 then 0x90 else 0x80) (if b = 0xF4 then 0x8F else 0xBF))
     else ([0xFFFD], Idle))"

definition utf8_byte :: "utf8_state \<Rightarrow> nat \<Rightarrow> jsstring \<times> utf8_state" where
  "utf8_byte st b =
    (case st of
       Idle \<Rightarrow> utf8_lead b
     | Need n c lo hi \<Rightarrow>
         if b < lo \<or> hi < b then (0xFFFD # fst (utf8_lead b), snd (utf8_lead b))
         else if n = 1 then ([c * 64 + (b AND 0x3F)], Idle)
         else ([], Need (n - 1) (c * 64 + (b AND 0x3F)) 0x80 0xBF))"

primrec utf8_decode :: "nat list \<Rightarrow> utf8_state \<Rightarrow> jsstring" where
  "utf8_decode [] st = (case st of Idle \<Rightarrow> [] | Need _ _ _ _ \<Rightarrow> [0xFFFD])"
| "utf8_decode (b # bs) st = fst (utf8_byte st b) @ utf8_decode bs (snd (utf8_byte st b))"

definition TextDecoder_decode :: "ArrayBuffer \<Rightarrow> jsstring" where
  "TextDecoder_decode value =
    (case utf8_decode (map unat value) Idle of
       c # cs \<Rightarrow> if c = 0xFEFF then cs else c # cs
     | [] \<Rightarrow> [])"

text \<open>\<open>.replaceAll("\r\n", "\n")\<close> and \<open>.replaceAll("\r", "\n")\<close>.\<close>

fun replaceAll_CRLF :: "jsstring \<Rightarrow> jsstring" where
  "replaceAll_CRLF (c # d # cs) =
    (if c = 13 \<and> d = 10 then 10 # replaceAll_CRLF cs else c # replaceAll_CRLF (d # cs))"
| "replaceAll_CRLF cs = cs"

definition replaceAll_CR :: "jsstring \<Rightarrow> jsstring" where
  "replaceAll_CR cs = map (\<lambda>c. if c = 13 then 10 else c) cs"

text \<open>
  The regular expressions \<open>/(.)$/u\<close> and \<open>/^(.)/u\<close>, with \<open>match\<close> and with \<open>replace\<close> by
  the empty string. Without the \<open>s\<close> flag the dot matches no line terminator, so on a
  string that ends (or starts) with one, \<open>match\<close> is \<open>null\<close> and \<open>replace\<close> changes nothing.
\<close>

definition LineTerminator :: "codepoint \<Rightarrow> bool" where
  "LineTerminator c = (c = 0x0A \<or> c = 0x0D \<or> c = 0x2028 \<or> c = 0x2029)"

definition match_last :: "jsstring \<Rightarrow> codepoint option" where
  "match_last str = (if str = [] \<or> LineTerminator (last str) then None else Some (last str))"

definition replace_last :: "jsstring \<Rightarrow> jsstring" where
  "replace_last str = (if str = [] \<or> LineTerminator (last str) then str else butlast str)"

definition match_first :: "jsstring \<Rightarrow> codepoint option" where
  "match_first str =
    (case str of [] \<Rightarrow> None | c # _ \<Rightarrow> if LineTerminator c then None else Some c)"

definition replace_first :: "jsstring \<Rightarrow> jsstring" where
  "replace_first str =
    (case str of [] \<Rightarrow> [] | c # cs \<Rightarrow> if LineTerminator c then str else cs)"

section \<open>The file model (File.ts)\<close>

text \<open>
  Every file entry carries \<open>owner\<close>, \<open>group\<close> and \<open>mode\<close> (interface \<open>IFile\<close>); the literals
  built by \<open>Process\<close> also carry \<open>name\<close> and \<open>deleted\<close>. The \<open>type\<close> tag with its payload is
  the datatype \<open>FileKind\<close>. The mode is only ever read through the 32-bit operators \<open>>>\<close>,
  \<open>|\<close> and \<open>&\<close>, so it is kept as the 32-bit word those operators see; uid and gid are
  compared with \<open>===\<close> and are integers.

  A device file's \<open>read()\<close> and \<open>write(data)\<close> are callbacks of the device object; the entry
  keeps the chunks the device still has to deliver and the buffers written to it. The
  \<open>onStart\<close> callback of an executable and the target of a mounted filesystem play no part
  in the operations below and are left out.
\<close>

datatype FileKind =
    RegularFile (data: ArrayBuffer)
  | ExecutableFile (exec_data: "ArrayBuffer option")
  | DeviceFile (pending: "ArrayBuffer list") (written: "ArrayBuffer list")
  | SymbolicLink (target: string)
  | FilesystemFile
  | Directory

record File =
  name :: string
  owner :: int
  group :: int
  mode :: "32 word"
  deleted :: bool
  kind :: FileKind

definition isRegularFile :: "File \<Rightarrow> bool" where
  "isRegularFile e = (case kind e of RegularFile _ \<Rightarrow> True | _ \<Rightarrow> False)"

definition isExecutableFile :: "File \<Rightarrow> bool" where
  "isExecutableFile e = (case kind e of ExecutableFile _ \<Rightarrow> True | _ \<Rightarrow> False)"

definition isDeviceFile :: "File \<Rightarrow> bool" where
  "isDeviceFile e = (case kind e of DeviceFile _ _ \<Rightarrow> True | _ \<Rightarrow> False)"

definition isSymbolicLink :: "File \<Rightarrow> bool" where
  "isSymbolicLink e = (case kind e of SymbolicLink _ \<Rightarrow> True | _ \<Rightarrow> False)"

definition isFilesystemFile :: "File \<Rightarrow> bool" where
  "isFilesystemFile e = (case kind e of FilesystemFile \<Rightarrow> True | _ \<Rightarrow> False)"

definition isDirectory :: "File \<Rightarrow> bool" where
  "isDirectory e = (case kind e of Directory \<Rightarrow> True | _ \<Rightarrow> False)"

section \<open>What Process.ts imports\<close>

text \<open>
  \<open>Filesystem.ts\<close>, \<open>Flags.ts\<close>, \<open>Utils.ts\<close> and \<open>Emulator.ts\<close> are not part of the sources
  at hand. Everything \<open>Process\<close> takes from them is a parameter of the model, the record
  \<open>Kernel\<close>: the flag constants, the path helpers, and the storage session's \<open>get\<close>,
  \<open>create\<close>, \<open>delete\<close> and \<open>getSession\<close>. The theorems below hold for every such record.

  The entries the backend hands out are JavaScript objects, which \<open>Process\<close> mutates in
  place (\<open>entry.data = ...\<close>). The storage is therefore a pair: the backend's own structure
  \<open>tree\<close>, of any type, and the store of entry objects, addressed by reference. \<open>get\<close>
  answers with a reference; its second argument is \<open>None\<close> where the source omits it.
  A backend call that throws may still have changed the storage, so \<open>create\<close> and
  \<open>delete\<close> return the storage in both cases.
\<close>

record 'fs Storage =
  tree :: 'fs
  objects :: "nat \<Rightarrow> File"

record ('fs, 's) Kernel =
  OpenFlag_READ :: "32 word"
  OpenFlag_WRITE :: "32 word"
  UnlinkFlag_REMOVE_DIR :: "32 word"
  StatMode_IFDIR :: "32 word"
  StatMode_IFREG :: "32 word"
  StatMode_IFCHR :: "32 word"
  StatMode_IFLNK :: "32 word"
  PROCESS_DIRECTORY :: string
  resolve :: "string \<Rightarrow> string option \<Rightarrow> string list"
  dirname :: "string \<Rightarrow> string"
  basename :: "string \<Rightarrow> string"
  join :: "string list \<Rightarrow> string"
  generateFakeElfFile :: ArrayBuffer
  fs_get :: "'s \<Rightarrow> 'fs Storage \<Rightarrow> string list \<Rightarrow> bool option \<Rightarrow> error + nat"
  fs_create :: "'s \<Rightarrow> 'fs Storage \<Rightarrow> string \<Rightarrow> File \<Rightarrow> (error + unit) \<times> 'fs Storage"
  fs_delete :: "'s \<Rightarrow> 'fs Storage \<Rightarrow> string \<Rightarrow> bool option \<Rightarrow> (error + unit) \<times> 'fs Storage"
  getSession :: "'s \<Rightarrow> int \<Rightarrow> 's"

record Emulator =
  newPid :: int

section \<open>Processes (Process.ts)\<close>

text \<open>
  A method of \<open>Process\<close> takes the process \<open>this\<close> and the storage and returns its result,
  or the error it throws, together with the process and the storage as the call leaves
  them: what a call changed before it threw stays changed. The descriptor table is an
  association list from handles to descriptor records. \<open>children\<close> keeps the ids of the
  child processes, which is all \<open>spawn\<close> reads of them. Some names differ from the source
  where a field and a parameter would clash: the process fields \<open>id\<close>, \<open>name\<close> and \<open>args\<close>
  are \<open>pid\<close>, \<open>pname\<close> and \<open>pargs\<close>, the parameters \<open>pathname\<close>, \<open>flags\<close>, \<open>fd\<close> and \<open>offset\<close> are \<open>path\<close>,
  \<open>fl\<close>, \<open>n\<close> and \<open>off\<close>, and the public methods carry the prefix \<open>Process_\<close>.
\<close>

record FileDescriptorData =
  pathname :: string
  flags :: "32 word"
  offset :: int

record 's Process =
  pid :: int
  pname :: string
  fd :: "(fdnum \<times> FileDescriptorData) list"
  filesystem :: 's
  pargs :: "string list"
  env :: "string \<Rightarrow> string option"
  children :: "int list"
  uid :: int
  gid :: int

record 's ProcessInit =
  init_id :: int
  init_name :: string
  init_fd :: "(fdnum \<times> FileDescriptorData) list option"
  init_filesystem :: 's
  init_args :: "string list option"
  init_env :: "string \<Rightarrow> string option"
  init_uid :: int
  init_gid :: int

record Stat =
  stat_mode :: "32 word"
  stat_owner :: int
  stat_group :: int
  size :: int

text \<open>The constructor. It reads neither \<open>process.uid\<close> nor \<open>process.gid\<close>.\<close>

definition new_Process :: "('fs, 's) Kernel \<Rightarrow> 's ProcessInit \<Rightarrow> 's Process" where
  "new_Process K process =
    \<lparr>pid = init_id process,
     pname = init_name process,
     fd = (case init_fd process of None \<Rightarrow> [] | Some t \<Rightarrow> t),
     filesystem = getSession K (init_filesystem process) (init_id process),
     pargs = (case init_args process of None \<Rightarrow> [] | Some a \<Rightarrow> a),
     env = init_env process,
     children = [],
     uid = 0,
     gid = 0\<rparr>"

definition requireFileDescriptorData :: "'s Process \<Rightarrow> fdnum \<Rightarrow> error + FileDescriptorData" where
  "requireFileDescriptorData this n =
    (case map_of (fd this) n of None \<Rightarrow> Inl EBADFD | Some fdData \<Rightarrow> Inr fdData)"

definition createFileDescriptor :: "'s Process \<Rightarrow> string \<Rightarrow> 32 word \<Rightarrow> fdnum \<times> 's Process" where
  "createFileDescriptor this path fl =
    (let fdData = \<lparr>pathname = path, flags = fl, offset = 0\<rparr>;
         fdId = plus_one (Math_max (map (\<lambda>i. parseInt_key (fst i)) (fd this)))
     in (fdId, this\<lparr>fd := AList.update fdId fdData (fd this)\<rparr>))"

subsection \<open>The permission evaluator\<close>

text \<open>
  \<open>_isPermitted(entry, mode)\<close>. In JavaScript \<open>-\<close> binds tighter than \<open>>>\<close>, so the group
  bits are \<open>((entry.mode | 0o700) - 0o700) >> 3\<close>; \<open>>>\<close> is the signed shift. The octal
  constants are 0o700 = 448 and 0o770 = 504.
\<close>

definition isPermitted :: "'s Process \<Rightarrow> File \<Rightarrow> 32 word \<Rightarrow> bool" where
  "isPermitted this entry m =
    (let owner_mode = signed_drop_bit 6 (mode entry);
         group_mode = signed_drop_bit 3 ((mode entry OR 448) - 448);
         other_mode = (mode entry OR 504) - 504;
         current_mode =
           (if owner entry = uid this then owner_mode else 0) OR
           (if group entry = gid this then group_mode else 0) OR
           other_mode
     in current_mode AND m \<noteq> 0)"

subsection \<open>open, close, seek, read, write\<close>

text \<open>
  \<open>open\<close> is in two parts: \<open>Process_open\<close> is the \<open>try\<close> block with its \<open>catch\<close>, and
  \<open>open_resolved\<close> is the code after it, which both ways out of the \<open>try\<close> reach. The new
  file's mode is 0o777 = 511 and the descriptor link's is 0o700 = 448.
\<close>

definition open_resolved ::
  "('fs, 's) Kernel \<Rightarrow> 's Process \<Rightarrow> 'fs Storage \<Rightarrow> string \<Rightarrow> 32 word \<Rightarrow> nat \<Rightarrow>
    (error + fdnum) \<times> 's Process \<times> 'fs Storage" where
  "open_resolved K this w path fl entry =
    (if isDirectory (objects w entry) then (Inl EISDIR, this, w)
     else if fl AND OpenFlag_READ K \<noteq> 0 \<and> \<not> isPermitted this (objects w entry) 4
       then (Inl EACCES, this, w)
     else if fl AND OpenFlag_WRITE K \<noteq> 0 \<and> \<not> isPermitted this (objects w entry) 2
       then (Inl EACCES, this, w)
     else
       (let (n, this1) = createFileDescriptor this path fl in
        case fs_create K (filesystem this1) w
               (join K [PROCESS_DIRECTORY K, int_toString (pid this1), ''fd''])
               \<lparr>name = fdnum_toString n, owner = 0, group = 0, mode = 448, deleted = False,
                kind = SymbolicLink path\<rparr> of
          (Inl e, w1) \<Rightarrow> (Inl e, this1, w1)
        | (Inr _, w1) \<Rightarrow> (Inr n, this1, w1)))"

definition Process_open ::
  "('fs, 's) Kernel \<Rightarrow> 's Process \<Rightarrow> 'fs Storage \<Rightarrow> string \<Rightarrow> 32 word \<Rightarrow>
    (error + fdnum) \<times> 's Process \<times> 'fs Storage" where
  "Process_open K this w path fl =
    (case fs_get K (filesystem this) w (resolve K path (env this ''PWD'')) None of
       Inr entry \<Rightarrow> open_resolved K this w path fl entry
     | Inl e \<Rightarrow>
         if fl AND OpenFlag_WRITE K \<noteq> 0 \<and> e = ENOENT then
           (case fs_get K (filesystem this) w (resolve K (dirname K path) (env this ''PWD'')) None of
              Inl e1 \<Rightarrow> (Inl e1, this, w)
            | Inr parentEntry \<Rightarrow>
                if \<not> isPermitted this (objects w parentEntry) 2 then (Inl EACCES, this, w)
                else
                  (case fs_create K (filesystem this) w (dirname K path)
                          \<lparr>name = basename K path, owner = 0, group = 0, mode = 511,
                           deleted = False, kind = RegularFile []\<rparr> of
                     (Inl e2, w1) \<Rightarrow> (Inl e2, this, w1)
                   | (Inr _, w1) \<Rightarrow>
                       (case fs_get K (filesystem this) w1 (resolve K path (env this ''PWD''))
                               (Some True) of
                          Inl e3 \<Rightarrow> (Inl e3, this, w1)
                        | Inr entry \<Rightarrow> open_resolved K this w1 path fl entry)))
         else (Inl e, this, w))"

text \<open>
  \<open>unlink\<close>: the \<open>if\<close> statement either throws, or deletes recursively, or does nothing;
  whenever it does not throw, the \<open>delete(pathname, false)\<close> after it runs.
\<close>

definition Process_unlink ::
  "('fs, 's) Kernel \<Rightarrow> 's Process \<Rightarrow> 'fs Storage \<Rightarrow> string \<Rightarrow> 32 word \<Rightarrow>
    (error + unit) \<times> 's Process \<times> 'fs Storage" where
  "Process_unlink K this w path fl =
    (case fs_get K (filesystem this) w (resolve K path (env this ''PWD'')) None of
       Inl e \<Rightarrow> (Inl e, this, w)
     | Inr entry \<Rightarrow>
         (case (if fl AND UnlinkFlag_REMOVE_DIR K \<noteq> 0 then
                  (if \<not> isDirectory (objects w entry) then (Inl ENOTDIR, w)
                   else fs_delete K (filesystem this) w path (Some True))
                else
                  (if isDirectory (objects w entry) then (Inl EISDIR, w) else (Inr (), w))) of
            (Inl e, w1) \<Rightarrow> (Inl e, this, w1)
          | (Inr _, w1) \<Rightarrow>
              (case fs_delete K (filesystem this) w1 path (Some False) of
                 (Inl e, w2) \<Rightarrow> (Inl e, this, w2)
               | (Inr _, w2) \<Rightarrow> (Inr (), this, w2))))"

definition Process_close ::
  "('fs, 's) Kernel \<Rightarrow> 's Process \<Rightarrow> 'fs Storage \<Rightarrow> fdnum \<Rightarrow>
    (error + unit) \<times> 's Process \<times> 'fs Storage" where
  "Process_close K this w n =
    (case Process_unlink K this w
            (join K [PROCESS_DIRECTORY K, int_toString (pid this), ''fd'', fdnum_toString n]) 0 of
       (Inl e, this1, w1) \<Rightarrow> (Inl e, this1, w1)
     | (Inr _, this1, w1) \<Rightarrow> (Inr (), this1\<lparr>fd := AList.delete n (fd this1)\<rparr>, w1))"

definition Process_seek :: "'s Process \<Rightarrow> fdnum \<Rightarrow> int \<Rightarrow> (error + unit) \<times> 's Process" where
  "Process_seek this n off =
    (case requireFileDescriptorData this n of
       Inl e \<Rightarrow> (Inl e, this)
     | Inr fdd \<Rightarrow> (Inr (), this\<lparr>fd := AList.update n (fdd\<lparr>offset := off\<rparr>) (fd this)\<rparr>))"

text \<open>
  \<open>read\<close> and \<open>write\<close>. \<open>count\<close> is \<open>None\<close> for the default \<open>Infinity\<close>; \<open>seek\<close> stores
  any offset it is given, and the sums with the offset are sums of doubles. \<open>!entry.data\<close> holds
  only of an executable without data: a buffer, even an empty one, is an object. A device
  with nothing to deliver answers with an empty buffer here.
\<close>

definition Process_read ::
  "('fs, 's) Kernel \<Rightarrow> 's Process \<Rightarrow> 'fs Storage \<Rightarrow> fdnum \<Rightarrow> int option \<Rightarrow>
    (error + ArrayBuffer) \<times> 's Process \<times> 'fs Storage" where
  "Process_read K this w n count =
    (case requireFileDescriptorData this n of
       Inl e \<Rightarrow> (Inl e, this, w)
     | Inr fdd \<Rightarrow>
         if flags fdd AND OpenFlag_READ K = 0 then (Inl EBADFD, this, w)
         else
           (case fs_get K (filesystem this) w (resolve K (pathname fdd) (env this ''PWD''))
                   (Some True) of
              Inl e \<Rightarrow> (Inl e, this, w)
            | Inr entry \<Rightarrow>
                if isDirectory (objects w entry) then (Inl EISDIR, this, w)
                else if isRegularFile (objects w entry) \<or> isExecutableFile (objects w entry) then
                  (let w1 = (if kind (objects w entry) = ExecutableFile None
                             then w\<lparr>objects := (objects w)
                                    (entry := (objects w entry)
                                       \<lparr>kind := ExecutableFile (Some (generateFakeElfFile K))\<rparr>)\<rparr>
                             else w);
                       entry_data = (case kind (objects w1 entry) of
                                       RegularFile d \<Rightarrow> d
                                     | ExecutableFile (Some d) \<Rightarrow> d
                                     | _ \<Rightarrow> []);
                       data = slice entry_data (offset fdd)
                                (case count of None \<Rightarrow> None
                                 | Some c \<Rightarrow> Some (js_plus (offset fdd) c))
                   in case Process_seek this n (js_plus (offset fdd) (int (length data))) of
                        (Inl e, this1) \<Rightarrow> (Inl e, this1, w1)
                      | (Inr _, this1) \<Rightarrow> (Inr data, this1, w1))
                else if isDeviceFile (objects w entry) then
                  (case kind (objects w entry) of
                     DeviceFile (chunk # later) out \<Rightarrow>
                       (Inr chunk, this,
                        w\<lparr>objects := (objects w)
                             (entry := (objects w entry)\<lparr>kind := DeviceFile later out\<rparr>)\<rparr>)
                   | _ \<Rightarrow> (Inr [], this, w))
                else (Inl EIO, this, w)))"

definition Process_write ::
  "('fs, 's) Kernel \<Rightarrow> 's Process \<Rightarrow> 'fs Storage \<Rightarrow> fdnum \<Rightarrow> ArrayBuffer \<Rightarrow> int option \<Rightarrow>
    (error + unit) \<times> 's Process \<times> 'fs Storage" where
  "Process_write K this w n buf count =
    (case requireFileDescriptorData this n of
       Inl e \<Rightarrow> (Inl e, this, w)
     | Inr fdd \<Rightarrow>
         if flags fdd AND OpenFlag_WRITE K = 0 then (Inl EBADFD, this, w)
         else
           (case fs_get K (filesystem this) w (resolve K (pathname fdd) (env this ''PWD''))
                   (Some True) of
              Inl e \<Rightarrow> (Inl e, this, w)
            | Inr entry \<Rightarrow>
                if isDirectory (objects w entry) then (Inl EISDIR, this, w)
                else if isRegularFile (objects w entry) then
                  (let data = slice buf 0 count;
                       entry_data = (case kind (objects w entry) of RegularFile d \<Rightarrow> d | _ \<Rightarrow> []);
                       w1 = w\<lparr>objects := (objects w)
                              (entry := (objects w entry)
                                 \<lparr>kind := RegularFile (concatArrayBuffer
                                    [slice entry_data 0 (Some (offset fdd)), data,
                                     slice entry_data (offset fdd) None])\<rparr>)\<rparr>
                   in case Process_seek this n (js_plus (offset fdd) (int (length data))) of
                        (Inl e, this1) \<Rightarrow> (Inl e, this1, w1)
                      | (Inr _, this1) \<Rightarrow> (Inr (), this1, w1))
                else if isDeviceFile (objects w entry) then
                  (case kind (objects w entry) of
                     DeviceFile inp out \<Rightarrow>
                       (Inr (), this,
                        w\<lparr>objects := (objects w)
                             (entry := (objects w entry)\<lparr>kind := DeviceFile inp (out @ [buf])\<rparr>)\<rparr>)
                   | _ \<Rightarrow> (Inr (), this, w))
                else (Inl EIO, this, w)))"

subsection \<open>stat, fstat, lstat\<close>

text \<open>\<open>_stat\<close> is \<open>stat_of\<close>. Only \<open>stat\<close> passes \<open>true\<close> to \<open>get\<close>.\<close>

definition stat_of :: "('fs, 's) Kernel \<Rightarrow> File \<Rightarrow> Stat" where
  "stat_of K entry =
    (let m = (if isDirectory entry then StatMode_IFDIR K else 0) OR
             (if isRegularFile entry then StatMode_IFREG K else 0) OR
             (if isDeviceFile entry then StatMode_IFCHR K else 0) OR
             (if isSymbolicLink entry then StatMode_IFLNK K else 0)
     in \<lparr>stat_mode = mode entry OR m, stat_owner = owner entry, stat_group = group entry,
         size = 0\<rparr>)"

definition Process_stat ::
  "('fs, 's) Kernel \<Rightarrow> 's Process \<Rightarrow> 'fs Storage \<Rightarrow> string \<Rightarrow> error + Stat" where
  "Process_stat K this w path =
    (case fs_get K (filesystem this) w (resolve K path (env this ''PWD'')) (Some True) of
       Inl e \<Rightarrow> Inl e
     | Inr entry \<Rightarrow> Inr (stat_of K (objects w entry)))"

definition Process_fstat ::
  "('fs, 's) Kernel \<Rightarrow> 's Process \<Rightarrow> 'fs Storage \<Rightarrow> fdnum \<Rightarrow> error + Stat" where
  "Process_fstat K this w n =
    (case requireFileDescriptorData this n of
       Inl e \<Rightarrow> Inl e
     | Inr fdd \<Rightarrow>
         (case fs_get K (filesystem this) w (resolve K (pathname fdd) (env this ''PWD'')) None of
            Inl e \<Rightarrow> Inl e
          | Inr entry \<Rightarrow> Inr (stat_of K (objects w entry))))"

definition Process_lstat ::
  "('fs, 's) Kernel \<Rightarrow> 's Process \<Rightarrow> 'fs Storage \<Rightarrow> string \<Rightarrow> error + Stat" where
  "Process_lstat K this w path =
    (case fs_get K (filesystem this) w (resolve K path (env this ''PWD'')) None of
       Inl e \<Rightarrow> Inl e
     | Inr entry \<Rightarrow> Inr (stat_of K (objects w entry)))"

subsection \<open>spawn\<close>

text \<open>
  \<open>spawn\<close> returns the emulator, the parent, the child and the storage. The body of the
  child is a parameter; it may change the child, the storage and the pid counter.
  \<open>newPid++\<close> is a sum of doubles like the others.
\<close>

definition spawn ::
  "('fs, 's) Kernel \<Rightarrow> Emulator \<Rightarrow> 's Process \<Rightarrow> 'fs Storage \<Rightarrow>
    (Emulator \<Rightarrow> 's Process \<Rightarrow> 'fs Storage \<Rightarrow>
      (error + unit) \<times> Emulator \<times> 's Process \<times> 'fs Storage) \<Rightarrow>
    (error + unit) \<times> Emulator \<times> 's Process \<times> 's Process \<times> 'fs Storage" where
  "spawn K emulator this w callback =
    (let process = new_Process K
           \<lparr>init_id = newPid emulator, init_name = ''New Process'', init_fd = None,
            init_filesystem = filesystem this, init_args = None, init_env = env this,
            init_uid = uid this, init_gid = gid this\<rparr>;
         emulator1 = emulator\<lparr>newPid := js_plus (newPid emulator) 1\<rparr>;
         this1 = this\<lparr>children := children this @ [pid process]\<rparr>
     in case Process_open K process w ''/dev/tty1'' (OpenFlag_READ K) of
          (Inl e, p1, w1) \<Rightarrow> (Inl e, emulator1, this1, p1, w1)
        | (Inr _, p1, w1) \<Rightarrow>
            (case Process_open K p1 w1 ''/dev/tty1'' (OpenFlag_WRITE K) of
               (Inl e, p2, w2) \<Rightarrow> (Inl e, emulator1, this1, p2, w2)
             | (Inr _, p2, w2) \<Rightarrow>
                 (case Process_open K p2 w2 ''/dev/tty1'' (OpenFlag_WRITE K) of
                    (Inl e, p3, w3) \<Rightarrow> (Inl e, emulator1, this1, p3, w3)
                  | (Inr _, p3, w3) \<Rightarrow>
                      (case callback emulator1 p3 w3 of
                         (Inl e, emulator2, p4, w4) \<Rightarrow> (Inl e, emulator2, this1, p4, w4)
                       | (Inr _, emulator2, p4, w4) \<Rightarrow>
                           (Inr (), emulator2,
                            this1\<lparr>children := filter (\<lambda>p. p \<noteq> pid process) (children this1)\<rparr>,
                            p4, w4)))))"

subsection \<open>Notions used to state the properties of write\<close>

text \<open>
  \<open>first_bytes buf count\<close>: the first \<open>count\<close> bytes of \<open>buf\<close>, all of them by default and
  when there are fewer; a negative \<open>count\<close> stands for the length less that many bytes, as
  in \<open>slice\<close>. \<open>position old k\<close>: the place in the content \<open>old\<close> that the offset \<open>k\<close> names,
  which is \<open>k\<close> itself, or the end when \<open>k\<close> lies beyond it; a negative \<open>k\<close> counts from the
  end, and stands for the start when it reaches further back.
\<close>

definition first_bytes :: "ArrayBuffer \<Rightarrow> int option \<Rightarrow> ArrayBuffer" where
  "first_bytes buf count =
    (case count of
       None \<Rightarrow> buf
     | Some c \<Rightarrow> take (nat (if c < 0 then int (length buf) + c else c)) buf)"

definition position :: "ArrayBuffer \<Rightarrow> int \<Rightarrow> nat" where
  "position old k = min (length old) (nat (if k < 0 then int (length old) + k else k))"

section \<open>The line editor (class ReadInstance)\<close>

text \<open>
  The object holds \<open>buffer.forward\<close>, \<open>buffer.backward\<close> and \<open>hasEnded\<close>. One call of
  \<open>process\<close> has three locals besides: the characters still to read (\<open>chars\<close>), the echo
  built so far (\<open>response\<close>) and \<open>shiftCount\<close>. \<open>ReadCall\<close> is the object together with
  these locals. A call that throws leaves the object as it was at the throw.
\<close>

record ReadInstance =
  forward :: jsstring
  backward :: jsstring
  hasEnded :: bool

record ReadCall = ReadInstance +
  chars :: jsstring
  response :: jsstring
  shiftCount :: nat

text \<open>
  The closures \<open>write\<close>, \<open>bell\<close> and \<open>getLength\<close> (\<open>write\<close> is \<open>write_echo\<close> here). The
  bell is 7, escape is 27, \<open>[\<close> is 91, and the letters A, B, C, D, F, H are 65, 66, 67, 68,
  70, 72. \<open>backspace\<close> is the first branch of \<open>read\<close>, and \<open>run_command\<close> is the chain of
  tests on \<open>command\<close> after the loop that reads an escape sequence; \<open>args\<close> reaches it and
  is only logged there. \<open>match(...)![0]\<close> throws a \<open>TypeError\<close> when the match is \<open>null\<close>.
\<close>

definition write_echo :: "jsstring \<Rightarrow> ReadCall \<Rightarrow> ReadCall" where
  "write_echo char s = s\<lparr>response := response s @ char\<rparr>"

definition bell :: "ReadCall \<Rightarrow> ReadCall" where
  "bell s = (if 7 \<in> set (response s) then s else s\<lparr>response := response s @ [7]\<rparr>)"

definition getLength :: "jsstring \<Rightarrow> nat" where
  "getLength str = js_length str"

definition backspace :: "ReadCall \<Rightarrow> (error + unit) \<times> ReadCall" where
  "backspace s =
    (if js_length (backward s) = 0 then (Inr (), bell s)
     else case match_last (backward s) of
       None \<Rightarrow> (Inl TypeError, s)
     | Some removingChar \<Rightarrow>
         (let s1 = s\<lparr>backward := replace_last (backward s)\<rparr>;
              length = getLength [removingChar];
              s2 = s1\<lparr>shiftCount := shiftCount s1 + length\<rparr>
          in (Inr (), write_echo ([0x1B, 91] @ digits length @ [68]) s2)))"

definition run_command :: "codepoint option \<Rightarrow> jsstring \<Rightarrow> ReadCall \<Rightarrow> (error + unit) \<times> ReadCall" where
  "run_command command args s =
    (if command = Some 65 \<or> command = Some 66 then (Inr (), s)
     else if command = Some 67 then
       (if js_length (forward s) = 0 then (Inr (), bell s)
        else case match_first (forward s) of
          None \<Rightarrow> (Inl TypeError, s)
        | Some movingChar \<Rightarrow>
            (let s1 = s\<lparr>backward := backward s @ [movingChar]\<rparr>;
                 s2 = s1\<lparr>forward := replace_first (forward s1)\<rparr>
             in (Inr (), write_echo ([0x1B, 91] @ digits (getLength [movingChar]) @ [67]) s2)))
     else if command = Some 68 then
       (if js_length (backward s) = 0 then (Inr (), bell s)
        else case match_last (backward s) of
          None \<Rightarrow> (Inl TypeError, s)
        | Some movingChar \<Rightarrow>
            (let s1 = s\<lparr>forward := movingChar # forward s\<rparr>;
                 s2 = s1\<lparr>backward := replace_last (backward s1)\<rparr>
             in (Inr (), write_echo ([0x1B, 91] @ digits (getLength [movingChar]) @ [68]) s2)))
     else if command = Some 72 then
       (if js_length (backward s) = 0 then (Inr (), bell s)
        else (let length = getLength (backward s);
                  s1 = s\<lparr>forward := backward s @ forward s\<rparr>;
                  s2 = s1\<lparr>backward := []\<rparr>
              in (Inr (), write_echo ([0x1B, 91] @ digits length @ [68]) s2)))
     else if command = Some 70 then
       (if js_length (forward s) = 0 then (Inr (), bell s)
        else (let length = getLength (forward s);
                  s1 = s\<lparr>backward := backward s @ forward s\<rparr>;
                  s2 = s1\<lparr>forward := []\<rparr>
              in (Inr (), write_echo ([0x1B, 91] @ digits length @ [67]) s2)))
     else (Inr (), s))"

text \<open>
  The closure \<open>read(push)\<close> and, inside it, the loop \<open>while (!command)\<close>, here
  \<open>escape_loop\<close>, which calls \<open>read(false)\<close> for every character of the sequence. \<open>read\<close>
  returns the character it took, \<open>None\<close> for \<open>undefined\<close>. Taking a character from no
  characters with \<open>push\<close> set would append the text \<open>undefined\<close> to \<open>backward\<close>; the loop of
  \<open>process\<close> never does that.
\<close>

function read :: "bool \<Rightarrow> ReadCall \<Rightarrow> (error + codepoint option) \<times> ReadCall"
  and escape_loop :: "jsstring \<Rightarrow> ReadCall \<Rightarrow> (error + codepoint option \<times> jsstring) \<times> ReadCall"
where
  "read push s =
    (case chars s of
       [] \<Rightarrow> (Inr None, if push then s\<lparr>backward := backward s @ [117, 110, 100, 101, 102, 105, 110, 101, 100]\<rparr> else s)
     | char # rest \<Rightarrow>
         (let s0 = s\<lparr>chars := rest\<rparr> in
          if char = 0x7F \<or> char = 0x08 then
            (case backspace s0 of
               (Inl e, s1) \<Rightarrow> (Inl e, s1)
             | (Inr _, s1) \<Rightarrow> (Inr (Some char), s1))
          else if char = 0x1B then
            (case read False s0 of
               (Inl e, s1) \<Rightarrow> (Inl e, s1)
             | (Inr r, s1) \<Rightarrow>
                 if r = Some 91 then
                   (case escape_loop [] s1 of
                      (Inl e, s2) \<Rightarrow> (Inl e, s2)
                    | (Inr (command, args), s2) \<Rightarrow>
                        (case run_command command args s2 of
                           (Inl e, s3) \<Rightarrow> (Inl e, s3)
                         | (Inr _, s3) \<Rightarrow> (Inr (Some char), s3)))
                 else (Inr (Some char), s1))
          else if char = 0x0A then (Inr (Some char), write_echo [char] (s0\<lparr>hasEnded := True\<rparr>))
          else (Inr (Some char),
                if push then write_echo [char] (s0\<lparr>backward := backward s0 @ [char]\<rparr>) else s0)))"
| "escape_loop args s =
    (case read False s of
       (Inl e, s1) \<Rightarrow> (Inl e, s1)
     | (Inr None, s1) \<Rightarrow> (Inr (None, args), s1)
     | (Inr (Some sequenceChar), s1) \<Rightarrow>
         if sequenceChar = 59 \<or> (48 \<le> charCodeAt0 sequenceChar \<and> charCodeAt0 sequenceChar \<le> 57)
         then escape_loop (args @ [sequenceChar]) s1
         else (Inr (Some sequenceChar, args), s1))"
  by pat_completeness auto

text \<open>
  Termination: no call leaves more characters than it found, and \<open>read\<close> on a non-empty
  input takes at least one.
\<close>

lemma chars_write_echo [simp]: "chars (write_echo x s) = chars s"
  by (simp add: write_echo_def)

lemma chars_bell [simp]: "chars (bell s) = chars s"
  by (simp add: bell_def)

lemma chars_backspace [simp]: "chars (snd (backspace s)) = chars s"
  by (simp add: backspace_def Let_def split: option.split)

lemma chars_run_command [simp]: "chars (snd (run_command command args s)) = chars s"
  by (simp add: run_command_def Let_def split: option.split)



lemma read_escape_loop_consume:
  "read_escape_loop_dom (Inl (push, s)) \<Longrightarrow>
     length (chars (snd (read push s))) \<le> length (chars s) \<and>
     (chars s \<noteq> [] \<longrightarrow> length (chars (snd (read push s))) < length (chars s)) \<and>
     (chars s = [] \<longrightarrow> fst (read push s) = Inr None)"
  "read_escape_loop_dom (Inr (args, s)) \<Longrightarrow>
     length (chars (snd (escape_loop args s))) \<le> length (chars s)"
proof (induction push s and args s rule: read_escape_loop.pinduct)
  case (1 push s)
  note dom = "1.hyps" and inner = "1.IH"(1) and loop = "1.IH"(2)
  show ?case
  proof (cases "chars s")
    case Nil
    with dom show ?thesis by (simp add: read.psimps)
  next
    case (Cons char rest)
    define s0 where "s0 = s\<lparr>chars := rest\<rparr>"
    have rest: "chars s0 = rest"
      by (simp add: s0_def)
    consider (bs) "char = 127 \<or> char = 8" | (esc) "\<not> (char = 127 \<or> char = 8)" "char = 27"
      | (other) "\<not> (char = 127 \<or> char = 8)" "char \<noteq> 27"
      by blast
    then show ?thesis
    proof cases
      case bs
      obtain r1 s1 where b: "backspace s0 = (r1, s1)"
        by (cases "backspace s0")
      have "chars s1 = rest"
        using chars_backspace [of s0] b rest by simp
      with dom Cons bs b show ?thesis
        by (cases r1) (auto simp add: read.psimps s0_def [symmetric])
    next
      case esc
      obtain r1 s1 where r: "read False s0 = (r1, s1)"
        by (cases "read False s0")
      have le1: "length (chars s1) \<le> length rest"
        using inner [OF Cons s0_def esc] r rest by simp
      show ?thesis
      proof (cases r1)
        case (Inl e)
        with dom Cons esc r le1 show ?thesis
          by (simp add: read.psimps s0_def [symmetric])
      next
        case (Inr b)
        show ?thesis
        proof (cases "b = Some 91")
          case False
          with dom Cons esc r le1 Inr show ?thesis
            by (simp add: read.psimps s0_def [symmetric])
        next
          case True
          obtain r2 s2 where l: "escape_loop [] s1 = (r2, s2)"
            by (cases "escape_loop [] s1")
          have le2: "length (chars s2) \<le> length (chars s1)"
            using loop [OF Cons s0_def esc r [symmetric] Inr True] l by simp
          show ?thesis
          proof (cases r2)
            case (Inl e)
            with dom Cons esc r le1 le2 Inr True l show ?thesis
              by (simp add: read.psimps s0_def [symmetric])
          next
            case r2: (Inr ca)
            obtain command args where ca: "ca = (command, args)"
              by (cases ca)
            obtain r3 s3 where c: "run_command command args s2 = (r3, s3)"
              by (cases "run_command command args s2")
            have "chars s3 = chars s2"
              using chars_run_command [of command args s2] c by simp
            with dom Cons esc r le1 le2 Inr True l r2 ca c show ?thesis
              by (cases r3) (simp_all add: read.psimps s0_def [symmetric])
          qed
        qed
      qed
    next
      case other
      with dom Cons show ?thesis
        by (simp add: read.psimps Let_def)
    qed
  qed
next
  case (2 args s)
  note dom = "2.hyps" and first = "2.IH"(1) and again = "2.IH"(2)
  obtain r1 s1 where r: "read False s = (r1, s1)"
    by (cases "read False s")
  have le1: "length (chars s1) \<le> length (chars s)"
    using first r by simp
  show ?case
  proof (cases r1)
    case (Inl e)
    with dom r le1 show ?thesis
      by (simp add: escape_loop.psimps)
  next
    case (Inr b)
    show ?thesis
    proof (cases b)
      case None
      with dom r le1 Inr show ?thesis
        by (simp add: escape_loop.psimps)
    next
      case (Some sequenceChar)
      show ?thesis
      proof (cases "sequenceChar = 59 \<or> 48 \<le> charCodeAt0 sequenceChar \<and> charCodeAt0 sequenceChar \<le> 57")
        case True
        have "length (chars (snd (escape_loop (args @ [sequenceChar]) s1))) \<le> length (chars s1)"
          using again [OF r [symmetric] Inr Some True] .
        with dom r le1 Inr Some True show ?thesis
          by (simp add: escape_loop.psimps)
      next
        case False
        with dom r le1 Inr Some show ?thesis
          by (auto simp add: escape_loop.psimps)
      qed
    qed
  qed
qed

lemma read_escape_loop_total: "All read_escape_loop_dom"
proof (relation "measures [\<lambda>x. case x of Inl (push, s) \<Rightarrow> length (chars s) | Inr (args, s) \<Rightarrow> length (chars s),
                           \<lambda>x. case x of Inl _ \<Rightarrow> 0 | Inr _ \<Rightarrow> Suc 0]", goal_cases)
  case 1
  then show ?case by simp
next
  case (2 push s char rest s0)
  then show ?case by simp
next
  case (3 push s char rest s0 x y r)
  then have d: "read_escape_loop_dom (Inl (False, s0))" and e: "(x, y) = read False s0"
    and c: "chars s = char # rest" and s0: "s0 = s\<lparr>chars := rest\<rparr>"
    by simp_all
  have "length (chars (snd (read False s0))) \<le> length (chars s0)"
    using read_escape_loop_consume(1) [OF d] by simp
  moreover have "snd (read False s0) = y"
    using e by (metis snd_conv)
  ultimately show ?case
    using c s0 by simp
next
  case (4 args s)
  then show ?case by simp
next
  case (5 args s x s1 y sequenceChar)
  then have d: "read_escape_loop_dom (Inl (False, s))" and e: "(x, s1) = read False s"
    and x: "x = Inr y" and y: "y = Some sequenceChar"
    by simp_all
  have "fst (read False s) = Inr (Some sequenceChar)" "snd (read False s) = s1"
    using e x y by (metis fst_conv, metis snd_conv)
  then have "length (chars s1) < length (chars s)"
    using read_escape_loop_consume(1) [OF d] by (cases "chars s = []") auto
  then show ?case by simp
qed

termination read
  by (rule read_escape_loop_total)

declare read.simps [simp del] escape_loop.simps [simp del]

lemma read_consumes:
  "chars s \<noteq> [] \<Longrightarrow> length (chars (snd (read push s))) < length (chars s)"
  using read_escape_loop_consume(1) [of push s] read_escape_loop_total
  by simp

text \<open>The loop \<open>while (chars.length !== 0)\<close> of \<open>process\<close>, then \<open>process\<close> and \<open>line\<close>.\<close>

function main_loop :: "ReadCall \<Rightarrow> (error + unit) \<times> ReadCall" where
  "main_loop s =
    (if chars s = [] then (Inr (), s)
     else case read True s of
       (Inl e, s1) \<Rightarrow> (Inl e, s1)
     | (Inr _, s1) \<Rightarrow> if hasEnded s1 then (Inr (), s1) else main_loop s1)"
  by pat_completeness auto

termination
proof (relation "measure (\<lambda>s. length (chars s))", goal_cases)
  case 1
  then show ?case by simp
next
  case (2 s x s1 y)
  then have "snd (read True s) = s1" "chars s \<noteq> []"
    by (metis snd_conv, simp)
  then show ?case
    using read_consumes [of s True] by simp
qed

declare main_loop.simps [simp del]

definition input_chars :: "ArrayBuffer \<Rightarrow> jsstring" where
  "input_chars value = replaceAll_CR (replaceAll_CRLF (TextDecoder_decode value))"

definition call_state :: "ReadInstance \<Rightarrow> ArrayBuffer \<Rightarrow> ReadCall" where
  "call_state this value =
    ReadInstance.extend this \<lparr>chars = input_chars value, response = [], shiftCount = 0\<rparr>"

definition process :: "ReadInstance \<Rightarrow> ArrayBuffer \<Rightarrow> (error + jsstring) \<times> ReadInstance" where
  "process this value =
    (case main_loop (call_state this value) of
       (Inl e, s1) \<Rightarrow> (Inl e, ReadInstance.truncate s1)
     | (Inr _, s1) \<Rightarrow>
            (Inr (response s1 @
                  (if js_length (forward s1) + shiftCount s1 > 0
                   then forward s1 @ replicate (shiftCount s1) 32 @
                        [0x1B, 91] @ digits (js_length (forward s1) + shiftCount s1) @ [68]
                   else [])),
             ReadInstance.truncate s1))"

definition line :: "ReadInstance \<Rightarrow> jsstring" where
  "line this = backward this @ forward this"

definition new_ReadInstance :: ReadInstance where
  "new_ReadInstance = \<lparr>forward = [], backward = [], hasEnded = False\<rparr>"

subsection \<open>Notions used to state the properties\<close>

text \<open>
  \<open>read_on_empty push s\<close>: the call \<open>read(push)\<close> in state \<open>s\<close> takes a backspace (DEL or
  BS) while \<open>backward\<close> is empty, either as its own character or in one of the calls
  \<open>read(false)\<close> that it makes for an escape sequence; \<open>escape_loop_on_empty s\<close> is the same
  for the loop that reads the sequence. They follow \<open>read\<close> and \<open>escape_loop\<close> call by call.
  \<open>backspace_on_empty s\<close>: one of the calls of \<open>read\<close> in the rest of the call of \<open>process\<close>
  does so. \<open>edits\<close> over-approximates what a call
  can do to its state: any sequence of the primitive changes that \<open>read\<close> makes.
  \<open>bell_free\<close>: no BEL character is typed or buffered, and the echo holds at most one.
  \<open>is_parameter\<close>: a digit or a semicolon. \<open>input_tail\<close>: the characters that the bytes
  after an ASCII prefix decode to.
\<close>

function read_on_empty :: "bool \<Rightarrow> ReadCall \<Rightarrow> bool"
  and escape_loop_on_empty :: "ReadCall \<Rightarrow> bool"
where
  "read_on_empty push s =
    (case chars s of
       [] \<Rightarrow> False
     | char # rest \<Rightarrow>
         (let s0 = s\<lparr>chars := rest\<rparr> in
          if char = 0x7F \<or> char = 0x08 then js_length (backward s0) = 0
          else if char = 0x1B then
            (if read_on_empty False s0 then True
             else case read False s0 of
                 (Inl e, s1) \<Rightarrow> False
               | (Inr r, s1) \<Rightarrow> if r = Some 91 then escape_loop_on_empty s1 else False)
          else False))"
| "escape_loop_on_empty s =
    (if read_on_empty False s then True
     else case read False s of
         (Inl e, s1) \<Rightarrow> False
       | (Inr None, s1) \<Rightarrow> False
       | (Inr (Some sequenceChar), s1) \<Rightarrow>
           if sequenceChar = 59 \<or> (48 \<le> charCodeAt0 sequenceChar \<and> charCodeAt0 sequenceChar \<le> 57)
           then escape_loop_on_empty s1
           else False)"
  by pat_completeness auto

termination
proof (relation "measure (\<lambda>x. case x of
    Inl (push, s) \<Rightarrow> 2 * length (chars s) | Inr s \<Rightarrow> 2 * length (chars s) + 1)", goal_cases)
  case 1
  then show ?case by simp
next
  case (2 push s char rest s0)
  then show ?case by simp
next
  case (3 push s char rest s0 x s1 r)
  then have "snd (read False s0) = s1" "chars s = char # rest" "s0 = s\<lparr>chars := rest\<rparr>"
    by (metis snd_conv, simp_all)
  then show ?case
    using read_escape_loop_consume(1) [of False s0] read_escape_loop_total by simp
next
  case (4 s)
  then show ?case by simp
next
  case (5 s x s1 r sequenceChar)
  then have result: "read False s = (Inr (Some sequenceChar), s1)"
    by simp
  then have "chars s \<noteq> []"
    using read_escape_loop_consume(1) [of False s] read_escape_loop_total by auto
  then show ?case
    using read_consumes [of s False] result by simp
qed

declare read_on_empty.simps [simp del] escape_loop_on_empty.simps [simp del]

function backspace_on_empty :: "ReadCall \<Rightarrow> bool" where
  "backspace_on_empty s =
    (if chars s = [] then False
     else if read_on_empty True s then True
     else case read True s of
         (Inl e, s1) \<Rightarrow> False
       | (Inr _, s1) \<Rightarrow> if hasEnded s1 then False else backspace_on_empty s1)"
  by pat_completeness auto

termination
proof (relation "measure (\<lambda>s. length (chars s))", goal_cases)
  case 1
  then show ?case by simp
next
  case (2 s x s1 y)
  then have "snd (read True s) = s1" "chars s \<noteq> []"
    by (metis snd_conv, simp)
  then show ?case
    using read_consumes [of s True] by simp
qed

declare backspace_on_empty.simps [simp del]

inductive edits :: "ReadCall \<Rightarrow> ReadCall \<Rightarrow> bool" where
  edits_refl: "edits s s"
| edits_trans: "edits s s1 \<Longrightarrow> edits s1 s2 \<Longrightarrow> edits s s2"
| edits_shift: "chars s = char # rest \<Longrightarrow> edits s (s\<lparr>chars := rest\<rparr>)"
| edits_undefined: "chars s = [] \<Longrightarrow>
    edits s (s\<lparr>backward := backward s @ [117, 110, 100, 101, 102, 105, 110, 101, 100]\<rparr>)"
| edits_backspace: "edits s (snd (backspace s))"
| edits_command: "edits s (snd (run_command command args s))"
| edits_newline: "chars s = 10 # rest \<Longrightarrow>
    edits s (write_echo [10] (s\<lparr>chars := rest, hasEnded := True\<rparr>))"
| edits_push: "chars s = char # rest \<Longrightarrow> char \<noteq> 0x7F \<Longrightarrow> char \<noteq> 0x08 \<Longrightarrow>
    char \<noteq> 0x1B \<Longrightarrow> char \<noteq> 0x0A \<Longrightarrow>
    edits s (write_echo [char] (s\<lparr>chars := rest, backward := backward s @ [char]\<rparr>))"

definition bell_free :: "ReadCall \<Rightarrow> bool" where
  "bell_free s \<longleftrightarrow>
    7 \<notin> set (chars s) \<and> 7 \<notin> set (forward s) \<and> 7 \<notin> set (backward s) \<and>
    count_list (response s) 7 \<le> 1"

definition is_parameter :: "codepoint \<Rightarrow> bool" where
  "is_parameter c \<longleftrightarrow> c = 59 \<or> (48 \<le> c \<and> c \<le> 57)"

definition input_tail :: "ArrayBuffer \<Rightarrow> jsstring" where
  "input_tail rest = replaceAll_CR (replaceAll_CRLF (utf8_decode (map unat rest) Idle))"

section \<open>A storage backend to run the model on\<close>

text \<open>
  Modelled from the spec: the storage session (\<open>Filesystem.ts\<close>), the path helpers
  (\<open>Utils.ts\<close>) and the flag values (\<open>Flags.ts\<close>) are missing from the sources. The spec
  gives the session's interface: \<open>get(path, followLinks)\<close> fails with NotFound or
  NotADirectory, \<open>create(parentPath, newEntry)\<close> with NotFound or AlreadyExists,
  \<open>delete(path, recursive)\<close> with NotFound or DirectoryNotEmpty. The backend below is one
  instance of it, used to run the model on concrete inputs: a table from absolute paths
  (lists of segments) to entry references. \<open>get\<close> follows links only when asked to, as
  \<open>lstat\<close> relies on; paths are split at \<open>/\<close>; a relative path is resolved against the
  working directory by \<open>resolve\<close> only.
\<close>

primrec demo_split :: "string \<Rightarrow> string \<Rightarrow> string list" where
  "demo_split [] cur = (if cur = [] then [] else [cur])"
| "demo_split (c # cs) cur =
    (if c = CHR ''/'' then (if cur = [] then demo_split cs [] else cur # demo_split cs [])
     else demo_split cs (cur @ [c]))"

definition demo_resolve :: "string \<Rightarrow> string option \<Rightarrow> string list" where
  "demo_resolve p pwd =
    (if p \<noteq> [] \<and> hd p = CHR ''/'' then demo_split p []
     else demo_split (case pwd of None \<Rightarrow> ''/'' | Some d \<Rightarrow> d) [] @ demo_split p [])"

primrec demo_join :: "string list \<Rightarrow> string" where
  "demo_join [] = []"
| "demo_join (p # ps) = (if ps = [] then p else p @ ''/'' @ demo_join ps)"

definition demo_dirname :: "string \<Rightarrow> string" where
  "demo_dirname p = ''/'' @ demo_join (butlast (demo_split p []))"

definition demo_basename :: "string \<Rightarrow> string" where
  "demo_basename p = (case demo_split p [] of [] \<Rightarrow> [] | ps \<Rightarrow> last ps)"

type_synonym demo_tree = "(string list \<times> nat) list"

primrec demo_lookup :: "nat \<Rightarrow> demo_tree Storage \<Rightarrow> string list \<Rightarrow> bool \<Rightarrow> error + nat" where
  "demo_lookup 0 w p follow = Inl ENOENT"
| "demo_lookup (Suc n) w p follow =
    (case map_of (tree w) p of
       None \<Rightarrow> Inl ENOENT
     | Some r \<Rightarrow>
         (case kind (objects w r) of
            SymbolicLink t \<Rightarrow> if follow then demo_lookup n w (demo_resolve t None) follow else Inr r
          | _ \<Rightarrow> Inr r))"

definition demo_get :: "unit \<Rightarrow> demo_tree Storage \<Rightarrow> string list \<Rightarrow> bool option \<Rightarrow> error + nat" where
  "demo_get s w p follow = demo_lookup (Suc (Suc (Suc (Suc 0)))) w p (follow = Some True)"

definition demo_create ::
  "unit \<Rightarrow> demo_tree Storage \<Rightarrow> string \<Rightarrow> File \<Rightarrow> (error + unit) \<times> demo_tree Storage" where
  "demo_create s w parent entry =
    (let pp = demo_resolve parent None in
     case map_of (tree w) pp of
       None \<Rightarrow> (Inl ENOENT, w)
     | Some r \<Rightarrow>
         if \<not> isDirectory (objects w r) then (Inl ENOTDIR, w)
         else if map_of (tree w) (pp @ [name entry]) \<noteq> None then (Inl EEXIST, w)
         else
           (let r' = fold max (map snd (tree w)) 0 + 1
            in (Inr (), w\<lparr>tree := tree w @ [(pp @ [name entry], r')],
                          objects := (objects w)(r' := entry)\<rparr>)))"

definition demo_delete ::
  "unit \<Rightarrow> demo_tree Storage \<Rightarrow> string \<Rightarrow> bool option \<Rightarrow> (error + unit) \<times> demo_tree Storage" where
  "demo_delete s w path recursive =
    (let p = demo_resolve path None in
     case map_of (tree w) p of
       None \<Rightarrow> (Inl ENOENT, w)
     | Some r \<Rightarrow>
         if (\<exists>q \<in> set (map fst (tree w)). q \<noteq> p \<and> take (length p) q = p) \<and> recursive \<noteq> Some True
         then (Inl ENOTEMPTY, w)
         else (Inr (), w\<lparr>tree := filter (\<lambda>e. take (length p) (fst e) \<noteq> p) (tree w)\<rparr>))"

definition demo_kernel :: "(demo_tree, unit) Kernel" where
  "demo_kernel =
    \<lparr>OpenFlag_READ = 1, OpenFlag_WRITE = 2, UnlinkFlag_REMOVE_DIR = 1,
     StatMode_IFDIR = 0x4000, StatMode_IFREG = 0x8000, StatMode_IFCHR = 0x2000, StatMode_IFLNK = 0xA000,
     PROCESS_DIRECTORY = ''/proc'',
     resolve = demo_resolve, dirname = demo_dirname, basename = demo_basename, join = demo_join,
     generateFakeElfFile = [0x7F, 0x45, 0x4C, 0x46],
     fs_get = demo_get, fs_create = demo_create, fs_delete = demo_delete,
     getSession = (\<lambda>s _. s)\<rparr>"

text \<open>
  A small system: a world-writable \<open>/home\<close> with the file \<open>ab\<close> (content AB), the empty
  file \<open>empty\<close> and the link \<open>l\<close> to \<open>/home/ab\<close>; an empty directory \<open>/ro\<close> of mode 0o555
  owned by root; the terminal \<open>/dev/tty1\<close>; descriptor directories for the processes 1
  and 2. The process has uid 5 and gid 7 and six descriptors.
\<close>

definition demo_dir :: "string \<Rightarrow> 32 word \<Rightarrow> File" where
  "demo_dir n m = \<lparr>name = n, owner = 0, group = 0, mode = m, deleted = False, kind = Directory\<rparr>"

definition demo_storage :: "demo_tree Storage" where
  "demo_storage =
    \<lparr>tree = [([], 0), ([''proc''], 1), ([''proc'', ''1''], 2), ([''proc'', ''1'', ''fd''], 3),
             ([''home''], 4), ([''ro''], 5), ([''home'', ''ab''], 6), ([''home'', ''l''], 7),
             ([''dev''], 8), ([''dev'', ''tty1''], 9), ([''proc'', ''2''], 10),
             ([''proc'', ''2'', ''fd''], 11), ([''home'', ''empty''], 12)],
     objects = (\<lambda>_. demo_dir [] 511)
       (4 := demo_dir ''home'' 511,
        5 := demo_dir ''ro'' 365,
        6 := \<lparr>name = ''ab'', owner = 0, group = 0, mode = 438, deleted = False,
              kind = RegularFile [0x41, 0x42]\<rparr>,
        7 := \<lparr>name = ''l'', owner = 0, group = 0, mode = 511, deleted = False,
              kind = SymbolicLink ''/home/ab''\<rparr>,
        9 := \<lparr>name = ''tty1'', owner = 0, group = 0, mode = 438, deleted = False,
              kind = DeviceFile [] []\<rparr>,
        12 := \<lparr>name = ''empty'', owner = 0, group = 0, mode = 438, deleted = False,
               kind = RegularFile []\<rparr>)\<rparr>"

definition demo_process :: "unit Process" where
  "demo_process =
    \<lparr>pid = 1, pname = ''sh'',
     fd = [(Fd 0, \<lparr>pathname = ''/dev/tty1'', flags = 1, offset = 0\<rparr>),
           (Fd 1, \<lparr>pathname = ''/dev/tty1'', flags = 2, offset = 0\<rparr>),
           (Fd 2, \<lparr>pathname = ''/dev/tty1'', flags = 2, offset = 0\<rparr>),
           (Fd 3, \<lparr>pathname = ''/home/empty'', flags = 3, offset = 0\<rparr>),
           (Fd 4, \<lparr>pathname = ''/home/ab'', flags = 2, offset = 1\<rparr>),
           (Fd 5, \<lparr>pathname = ''/home/l'', flags = 1, offset = 0\<rparr>)],
     filesystem = (), pargs = [], env = (\<lambda>_. None)(''PWD'' := Some ''/home''),
     children = [], uid = 5, gid = 7\<rparr>"

section \<open>Properties of the permission evaluator\<close>

lemma seven_is_mask: "(7::32 word) = mask 3"
  by (simp add: mask_eq_exp_minus_1)

lemma owner_field_is_shifted_mask: "(448::32 word) = push_bit 6 (mask 3)"
  by (simp add: mask_eq_exp_minus_1)

lemma owner_group_field_is_shifted_mask: "(504::32 word) = push_bit 3 (mask 6)"
  by (simp add: mask_eq_exp_minus_1)

lemma request_within_three_bits:
  fixes r :: "32 word"
  assumes "r \<le> 7"
  shows "r AND 7 = r"
proof -
  from assms have "uint r \<le> 7"
    by (simp add: word_le_def)
  then have "uint r < 2 ^ 3"
    by simp
  then have "r AND mask 3 = r"
    by (simp only: mask_eq_iff)
  then show ?thesis
    by (simp only: seven_is_mask)
qed

lemma clear_owner_bits: "((m::32 word) OR 448) - 448 = m AND NOT 448"
proof -
  have "NOT (m OR 448) AND 448 = 0"
    by (simp add: bit_eq_iff bit_simps)
  then have "(m OR 448) - 448 = (m OR 448) AND NOT 448"
    by (rule disjunctive_diff_eq_and_not)
  also have "\<dots> = m AND NOT 448"
    by (simp add: bit_eq_iff bit_simps) blast
  finally show ?thesis .
qed

lemma clear_owner_group_bits: "((m::32 word) OR 504) - 504 = m AND NOT 504"
proof -
  have "NOT (m OR 504) AND 504 = 0"
    by (simp add: bit_eq_iff bit_simps)
  then have "(m OR 504) - 504 = (m OR 504) AND NOT 504"
    by (rule disjunctive_diff_eq_and_not)
  also have "\<dots> = m AND NOT 504"
    by (simp add: bit_eq_iff bit_simps) blast
  finally show ?thesis .
qed

lemma group_bits_low: "signed_drop_bit 3 ((m::32 word) AND NOT 448) AND 7 = signed_drop_bit 3 m AND 7"
  unfolding seven_is_mask owner_field_is_shifted_mask
  by (auto simp add: bit_eq_iff bit_simps)

lemma other_bits_low: "((m::32 word) AND NOT 504) AND 7 = m AND 7"
  unfolding seven_is_mask owner_group_field_is_shifted_mask
  by (auto simp add: bit_eq_iff bit_simps)

lemma signed_shift_low_bits:
  "signed_drop_bit 6 (m::32 word) AND 7 = drop_bit 6 m AND 7"
  "signed_drop_bit 3 (m::32 word) AND 7 = drop_bit 3 m AND 7"
  unfolding seven_is_mask
  by (auto simp add: bit_eq_iff bit_simps)

lemma isPermitted_low_bits:
  assumes "r \<le> 7"
  shows "isPermitted this e r \<longleftrightarrow>
    ((if uid this = owner e then signed_drop_bit 6 (mode e) AND 7 else 0) OR
     (if gid this = group e then signed_drop_bit 3 (mode e) AND 7 else 0) OR
     (mode e AND 7)) AND r \<noteq> 0"
proof -
  define code where "code =
    (if owner e = uid this then signed_drop_bit 6 (mode e) else 0) OR
    (if group e = gid this then signed_drop_bit 3 (mode e AND NOT 448) else 0) OR
    (mode e AND NOT 504)"
  define spec where "spec =
    (if uid this = owner e then signed_drop_bit 6 (mode e) AND 7 else 0) OR
    (if gid this = group e then signed_drop_bit 3 (mode e) AND 7 else 0) OR
    (mode e AND 7)"
  have r: "7 AND r = r"
    using request_within_three_bits [OF assms] by (simp add: and.commute)
  have low: "code AND 7 = spec AND 7"
    unfolding code_def spec_def
    using group_bits_low [of "mode e"] other_bits_low [of "mode e"]
    by (auto simp add: bit.conj_disj_distrib2 and.assoc)
  have "code AND r = code AND (7 AND r)"
    by (simp only: r)
  also have "\<dots> = (code AND 7) AND r"
    by (simp only: and.assoc)
  also have "\<dots> = (spec AND 7) AND r"
    by (simp only: low)
  also have "\<dots> = spec AND (7 AND r)"
    by (simp only: and.assoc)
  also have "\<dots> = spec AND r"
    by (simp only: r)
  finally have same: "code AND r = spec AND r" .
  have "isPermitted this e r \<longleftrightarrow> code AND r \<noteq> 0"
    by (simp add: isPermitted_def Let_def clear_owner_bits clear_owner_group_bits code_def)
  then show ?thesis
    by (simp only: same spec_def)
qed

text \<open>
  Claim C1. For every entry, every acting uid and gid and every requested access
  \<open>r\<close> in 1..7, \<open>_isPermitted\<close> is true exactly when
  \<open>(((uid = owner) ? (mode>>6)&7 : 0) | ((gid = group) ? (mode>>3)&7 : 0) | (mode&7)) & r\<close> is
  nonzero: the other bits are always OR'd in. The function is total and has no effect. For
  mode 0o640 (416), owner 5 and group 9, uid 5 (any gid) may read (4) and write (2) and not
  execute (1); uid 1 with gid 9 may read and not write.
\<close>

theorem isPermitted_formula:
  "(1 \<le> r \<and> r \<le> 7 \<longrightarrow>
      (isPermitted this e r \<longleftrightarrow>
        ((if uid this = owner e then signed_drop_bit 6 (mode e) AND 7 else 0) OR
         (if gid this = group e then signed_drop_bit 3 (mode e) AND 7 else 0) OR
         (mode e AND 7)) AND r \<noteq> 0))
   \<and> isPermitted (this\<lparr>uid := 5\<rparr>) (e\<lparr>mode := 416, owner := 5, group := 9\<rparr>) 4
   \<and> isPermitted (this\<lparr>uid := 5\<rparr>) (e\<lparr>mode := 416, owner := 5, group := 9\<rparr>) 2
   \<and> \<not> isPermitted (this\<lparr>uid := 5\<rparr>) (e\<lparr>mode := 416, owner := 5, group := 9\<rparr>) 1
   \<and> isPermitted (this\<lparr>uid := 1, gid := 9\<rparr>) (e\<lparr>mode := 416, owner := 5, group := 9\<rparr>) 4
   \<and> \<not> isPermitted (this\<lparr>uid := 1, gid := 9\<rparr>) (e\<lparr>mode := 416, owner := 5, group := 9\<rparr>) 2"
proof -
  have general: "1 \<le> r \<and> r \<le> 7 \<longrightarrow>
      (isPermitted this e r \<longleftrightarrow>
        ((if uid this = owner e then signed_drop_bit 6 (mode e) AND 7 else 0) OR
         (if gid this = group e then signed_drop_bit 3 (mode e) AND 7 else 0) OR
         (mode e AND 7)) AND r \<noteq> 0)"
    using isPermitted_low_bits by blast
  have examples:
    "isPermitted (this\<lparr>uid := 5\<rparr>) (e\<lparr>mode := 416, owner := 5, group := 9\<rparr>) 4"
    "isPermitted (this\<lparr>uid := 5\<rparr>) (e\<lparr>mode := 416, owner := 5, group := 9\<rparr>) 2"
    "\<not> isPermitted (this\<lparr>uid := 5\<rparr>) (e\<lparr>mode := 416, owner := 5, group := 9\<rparr>) 1"
    "isPermitted (this\<lparr>uid := 1, gid := 9\<rparr>) (e\<lparr>mode := 416, owner := 5, group := 9\<rparr>) 4"
    "\<not> isPermitted (this\<lparr>uid := 1, gid := 9\<rparr>) (e\<lparr>mode := 416, owner := 5, group := 9\<rparr>) 2"
    by (simp_all add: isPermitted_def Let_def)
  from general examples show ?thesis
    by blast
qed

theorem isPermitted_formula_witness:
  "(1::32 word) \<le> 6 \<and> (6::32 word) \<le> 7 \<and>
   isPermitted
     \<lparr>pid = 1, pname = ''sh'', fd = [], filesystem = (), pargs = [], env = (\<lambda>_. None),
       children = [], uid = 1, gid = 9\<rparr>
     \<lparr>name = ''f'', owner = 5, group = 9, mode = 416, deleted = False, kind = RegularFile []\<rparr>
     6"
  using isPermitted_formula
    [of 6
      "\<lparr>pid = 1, pname = ''sh'', fd = [], filesystem = (), pargs = [], env = (\<lambda>_. None),
         children = [], uid = 1, gid = 9\<rparr>"
      "\<lparr>name = ''f'', owner = 5, group = 9, mode = 416, deleted = False, kind = RegularFile []\<rparr>"]
  by simp

section \<open>Properties of the process layer\<close>

subsection \<open>Sums of whole numbers\<close>

text \<open>
  Up to \<open>2\<^sup>5\<^sup>3\<close> in magnitude every whole number is a double and a sum is exact; the
  sum of \<open>2\<^sup>5\<^sup>3\<close> and 1 is \<open>2\<^sup>5\<^sup>3\<close> again, and the sum of \<open>-2\<^sup>5\<^sup>3 - 2\<close> and 1 is
  \<open>-2\<^sup>5\<^sup>3\<close>.
\<close>

lemma bit_length_le: "n < 2 ^ k \<Longrightarrow> bit_length n \<le> k"
proof (induction k arbitrary: n)
  case 0
  then show ?case
    by (simp add: bit_length.simps)
next
  case (Suc k)
  show ?case
  proof (cases "n = 0")
    case True
    then show ?thesis
      by (simp add: bit_length.simps)
  next
    case False
    from Suc.prems have "n div 2 < 2 ^ k"
      by simp
    then have "bit_length (n div 2) \<le> k"
      by (rule Suc.IH)
    with False show ?thesis
      by (subst bit_length.simps) simp
  qed
qed

lemma bit_length_between: "2 ^ k \<le> n \<Longrightarrow> n < 2 ^ Suc k \<Longrightarrow> bit_length n = Suc k"
proof (induction k arbitrary: n)
  case 0
  then have "n = 1"
    by simp
  then show ?case
    by (simp add: bit_length.simps)
next
  case (Suc k)
  from Suc.prems have "2 ^ k \<le> n div 2" "n div 2 < 2 ^ Suc k" "n \<noteq> 0"
    by auto
  then have "bit_length (n div 2) = Suc k" "n \<noteq> 0"
    using Suc.IH by simp_all
  then show ?case
    by (subst bit_length.simps) simp
qed

lemma to_double_exact: "\<bar>x\<bar> \<le> 2 ^ 53 \<Longrightarrow> to_double x = x"
proof (cases "\<bar>x\<bar> = 2 ^ 53")
  case True
  then have n: "nat \<bar>x\<bar> = 9007199254740992"
    by simp
  have e: "bit_length 9007199254740992 = Suc 53"
    by (rule bit_length_between) simp_all
  have "to_double x = (if x < 0 then - 9007199254740992 else 9007199254740992)"
    unfolding to_double_def Let_def n by (simp add: e)
  with True show ?thesis
    by (simp split: if_splits)
next
  case False
  assume "\<bar>x\<bar> \<le> 2 ^ 53"
  with False have "nat \<bar>x\<bar> < 2 ^ 53"
    by simp
  then have "bit_length (nat \<bar>x\<bar>) \<le> 53"
    by (rule bit_length_le)
  then have e: "bit_length (nat \<bar>x\<bar>) - 53 = 0"
    by simp
  have "to_double x = (if x < 0 then - int (nat \<bar>x\<bar>) else int (nat \<bar>x\<bar>))"
    unfolding to_double_def Let_def e by simp
  then show ?thesis
    by simp
qed

lemma js_plus_exact: "\<bar>a + b\<bar> \<le> 2 ^ 53 \<Longrightarrow> js_plus a b = a + b"
  by (simp add: js_plus_def to_double_exact)

lemma js_plus_beyond: "js_plus 9007199254740992 1 = 9007199254740992"
proof -
  have "bit_length 9007199254740993 = Suc 53"
    by (rule bit_length_between) simp_all
  then show ?thesis
    by (simp add: js_plus_def to_double_def Let_def)
qed

lemma js_plus_below: "js_plus (- 9007199254740994) 1 = - 9007199254740992"
proof -
  have "bit_length 9007199254740993 = Suc 53"
    by (rule bit_length_between) simp_all
  then show ?thesis
    by (simp add: js_plus_def to_double_def Let_def)
qed

lemmas demo_defs = demo_kernel_def demo_storage_def demo_process_def demo_dir_def
  demo_get_def demo_create_def demo_delete_def demo_resolve_def demo_dirname_def demo_basename_def
  Process_open_def open_resolved_def createFileDescriptor_def Process_unlink_def Process_close_def
  Process_seek_def Process_read_def Process_write_def requireFileDescriptorData_def
  Process_stat_def Process_fstat_def Process_lstat_def stat_of_def
  isPermitted_def isDirectory_def isRegularFile_def isExecutableFile_def isDeviceFile_def isSymbolicLink_def
  Math_max_def parseInt_key_def plus_one_def fdnum_toString_def int_toString_def nat_toString.simps
  slice_def concatArrayBuffer_def Let_def js_plus_exact js_plus_beyond js_plus_below

subsection \<open>Slices\<close>

lemma slice_whole: "slice buf 0 None = buf"
  by (simp add: slice_def Let_def)

lemma slice_first_bytes: "slice buf 0 count = first_bytes buf count"
  by (cases count) (auto simp add: slice_def first_bytes_def Let_def min_def max_def)

lemma first_bytes_position: "first_bytes old (Some k) = take (position old k) old"
proof -
  have "take (min (length old) m) old = take m old" for m
    by (cases "m \<le> length old") (simp_all add: min_def)
  then show ?thesis
    unfolding first_bytes_def position_def option.case by (rule sym)
qed

lemma slice_before: "slice old 0 (Some k) = take (position old k) old"
  by (simp add: slice_first_bytes first_bytes_position)

lemma slice_after: "slice old k None = drop (position old k) old"
proof -
  define first where
    "first = (if k < 0 then max (int (length old) + k) 0 else min k (int (length old)))"
  have range: "0 \<le> first" "first \<le> int (length old)"
    by (simp_all add: first_def)
  have "nat first = position old k"
    unfolding first_def position_def by (simp add: min_def max_def) arith
  moreover have "slice old k None =
      take (nat (max (int (length old) - first) 0)) (drop (nat first) old)"
    by (simp add: slice_def Let_def first_def)
  moreover have "length (drop (nat first) old) \<le> nat (max (int (length old) - first) 0)"
    using range by simp
  ultimately show ?thesis
    by simp
qed

lemma position_inside: "0 \<le> k \<Longrightarrow> k \<le> int (length old) \<Longrightarrow> position old k = nat k"
  by (simp add: position_def)

subsection \<open>Descriptor table\<close>

lemma require_update:
  "requireFileDescriptorData (this\<lparr>fd := AList.update n d (fd this)\<rparr>) n = Inr d"
  by (simp add: requireFileDescriptorData_def update_conv')

lemma require_delete:
  "requireFileDescriptorData (this\<lparr>fd := AList.delete n (fd this)\<rparr>) n = Inl EBADFD"
  by (simp add: requireFileDescriptorData_def delete_conv')

lemma write_regular:
  assumes tbl: "map_of (fd this) n = Some fdd"
    and wr: "flags fdd AND OpenFlag_WRITE K \<noteq> 0"
    and get: "fs_get K (filesystem this) w (resolve K (pathname fdd) (env this ''PWD'')) (Some True) = Inr entry"
    and reg: "kind (objects w entry) = RegularFile old"
  shows "Process_write K this w n buf count =
    (Inr (),
     this\<lparr>fd := AList.update n
        (fdd\<lparr>offset := js_plus (offset fdd) (int (length (first_bytes buf count)))\<rparr>)
        (fd this)\<rparr>,
     w\<lparr>objects := (objects w)
        (entry := (objects w entry)
           \<lparr>kind := RegularFile
              (take (position old (offset fdd)) old @ first_bytes buf count @
               drop (position old (offset fdd)) old)\<rparr>)\<rparr>)"
proof -
  have kinds: "\<not> isDirectory (objects w entry)" "isRegularFile (objects w entry)"
    using reg by (simp_all add: isDirectory_def isRegularFile_def)
  show ?thesis
    using tbl wr get reg kinds
    by (simp add: Process_write_def requireFileDescriptorData_def Process_seek_def Let_def
        concatArrayBuffer_def slice_first_bytes first_bytes_position slice_after)
qed

lemma read_regular:
  assumes tbl: "map_of (fd this) n = Some fdd"
    and rd: "flags fdd AND OpenFlag_READ K \<noteq> 0"
    and get: "fs_get K (filesystem this) w (resolve K (pathname fdd) (env this ''PWD'')) (Some True) = Inr entry"
    and reg: "kind (objects w entry) = RegularFile old"
  shows "Process_read K this w n None =
    (Inr (drop (position old (offset fdd)) old),
     this\<lparr>fd := AList.update n
        (fdd\<lparr>offset := js_plus (offset fdd) (int (length (drop (position old (offset fdd)) old)))\<rparr>)
        (fd this)\<rparr>,
     w)"
proof -
  have kinds: "\<not> isDirectory (objects w entry)" "isRegularFile (objects w entry)"
    using reg by (simp_all add: isDirectory_def isRegularFile_def)
  show ?thesis
    using tbl rd get reg kinds
    by (simp add: Process_read_def requireFileDescriptorData_def Process_seek_def Let_def slice_after)
qed

lemma seek_known:
  "map_of (fd this) n = Some fdd \<Longrightarrow>
    Process_seek this n off = (Inr (), this\<lparr>fd := AList.update n (fdd\<lparr>offset := off\<rparr>) (fd this)\<rparr>)"
  by (simp add: Process_seek_def requireFileDescriptorData_def)

lemma write_then_read:
  assumes tbl: "map_of (fd this) n = Some fdd"
    and wr: "flags fdd AND OpenFlag_WRITE K \<noteq> 0"
    and rd: "flags fdd AND OpenFlag_READ K \<noteq> 0"
    and off: "offset fdd = 0"
    and get: "fs_get K (filesystem this) w (resolve K (pathname fdd) (env this ''PWD'')) (Some True) = Inr entry"
    and reg: "kind (objects w entry) = RegularFile []"
    and get1: "fs_get K (filesystem this)
        (w\<lparr>objects := (objects w)(entry := (objects w entry)\<lparr>kind := RegularFile buf\<rparr>)\<rparr>)
        (resolve K (pathname fdd) (env this ''PWD'')) (Some True) = Inr entry"
  shows "fst (Process_read K
            (snd (Process_seek (fst (snd (Process_write K this w n buf None))) n 0))
            (snd (snd (Process_write K this w n buf None))) n None) = Inr buf"
proof -
  define w1 where "w1 = w\<lparr>objects := (objects w)(entry := (objects w entry)\<lparr>kind := RegularFile buf\<rparr>)\<rparr>"
  define fdd1 where "fdd1 = fdd\<lparr>offset := js_plus (offset fdd) (int (length buf))\<rparr>"
  define this1 where "this1 = this\<lparr>fd := AList.update n fdd1 (fd this)\<rparr>"
  define fdd2 where "fdd2 = fdd1\<lparr>offset := 0\<rparr>"
  define this2 where "this2 = this1\<lparr>fd := AList.update n fdd2 (fd this1)\<rparr>"
  have w: "Process_write K this w n buf None = (Inr (), this1, w1)"
    using write_regular [OF tbl wr get reg, of buf None]
    by (simp add: this1_def fdd1_def w1_def first_bytes_def)
  have tbl1: "map_of (fd this1) n = Some fdd1"
    by (simp add: this1_def update_conv')
  have s: "Process_seek this1 n 0 = (Inr (), this2)"
    using seek_known [OF tbl1, of 0] by (simp add: this2_def fdd2_def)
  have tbl2: "map_of (fd this2) n = Some fdd2"
    by (simp add: this2_def update_conv')
  have "Process_read K this2 w1 n None =
    (Inr (drop (position buf (offset fdd2)) buf),
     this2\<lparr>fd := AList.update n
        (fdd2\<lparr>offset := js_plus (offset fdd2) (int (length (drop (position buf (offset fdd2)) buf)))\<rparr>)
        (fd this2)\<rparr>,
     w1)"
  proof (rule read_regular [OF tbl2])
    show "flags fdd2 AND OpenFlag_READ K \<noteq> 0"
      using rd by (simp add: fdd2_def fdd1_def)
    show "fs_get K (filesystem this2) w1 (resolve K (pathname fdd2) (env this2 ''PWD'')) (Some True) = Inr entry"
      using get1 by (simp add: this2_def this1_def fdd2_def fdd1_def w1_def)
    show "kind (objects w1 entry) = RegularFile buf"
      by (simp add: w1_def)
  qed
  then have "fst (Process_read K this2 w1 n None) = Inr buf"
    by (simp add: fdd2_def position_def)
  with w s show ?thesis
    by simp
qed

subsection \<open>Allocation of handles\<close>

lemma max2_NaN_right [simp]: "max2 x NaN = NaN"
  by (cases x) simp_all

lemma foldl_max2_NaN [simp]: "foldl max2 NaN ys = NaN"
  by (induction ys) simp_all

lemma foldl_max2_has_NaN: "NaN \<in> set ys \<Longrightarrow> foldl max2 acc ys = NaN"
  by (induction ys arbitrary: acc) auto

lemma foldl_max2_ints: "foldl max2 (Fd a) (map Fd js) = Fd (foldl max a js)"
  by (induction js arbitrary: a) simp_all

lemma foldl_max_bound: "(a::int) \<le> foldl max a js \<and> (\<forall>j \<in> set js. j \<le> foldl max a js)"
proof (induction js arbitrary: a)
  case Nil
  show ?case by simp
next
  case (Cons j js)
  have "max a j \<le> foldl max (max a j) js \<and> (\<forall>i \<in> set js. i \<le> foldl max (max a j) js)"
    by (rule Cons.IH)
  then show ?case by auto
qed

lemma foldl_max_mem: "foldl max (a::int) js \<in> insert a (set js)"
proof (induction js arbitrary: a)
  case Nil
  show ?case by simp
next
  case (Cons j js)
  have "foldl max (max a j) js \<in> insert (max a j) (set js)"
    by (rule Cons.IH)
  moreover have "max a j = a \<or> max a j = j"
    by (simp add: max_def)
  ultimately show ?case by auto
qed

text \<open>
  On a table of whole-number handles below \<open>2\<^sup>5\<^sup>3\<close> in magnitude the new handle is not in
  use. On an empty table the new handle is \<open>-Infinity\<close>, and on a table that holds
  \<open>-Infinity\<close> or \<open>NaN\<close> it is \<open>NaN\<close>, whose descriptor, if there is one, is replaced.
\<close>

lemma createFileDescriptor_empty:
  "fd this = [] \<Longrightarrow>
    createFileDescriptor this path fl =
      (NegInfinity, this\<lparr>fd := [(NegInfinity, \<lparr>pathname = path, flags = fl, offset = 0\<rparr>)]\<rparr>)"
  by (simp add: createFileDescriptor_def Math_max_def plus_one_def)

lemma createFileDescriptor_NaN:
  assumes "NaN \<in> fst ` set (fd this) \<or> NegInfinity \<in> fst ` set (fd this)"
  shows "createFileDescriptor this path fl =
    (NaN, this\<lparr>fd := AList.update NaN \<lparr>pathname = path, flags = fl, offset = 0\<rparr> (fd this)\<rparr>)"
proof -
  from assms have "NaN \<in> set (map (\<lambda>i. parseInt_key (fst i)) (fd this))"
    by (force simp add: parseInt_key_def)
  then have "Math_max (map (\<lambda>i. parseInt_key (fst i)) (fd this)) = NaN"
    unfolding Math_max_def by (rule foldl_max2_has_NaN)
  then show ?thesis
    by (simp add: createFileDescriptor_def plus_one_def)
qed

lemma createFileDescriptor_fresh:
  assumes "NaN \<notin> fst ` set (fd this)"
    and small: "\<forall>i. Fd i \<in> fst ` set (fd this) \<longrightarrow> \<bar>i\<bar> < 2 ^ 53"
  shows "map_of (fd this) (fst (createFileDescriptor this path fl)) = None"
proof -
  define ks where "ks = map fst (fd this)"
  have h: "fst (createFileDescriptor this path fl) = plus_one (Math_max (map parseInt_key ks))"
    by (simp add: createFileDescriptor_def Let_def ks_def comp_def)
  have nonan: "NaN \<notin> set ks"
    using assms by (simp add: ks_def)
  have "plus_one (Math_max (map parseInt_key ks)) \<notin> set ks"
  proof (cases "NegInfinity \<in> set ks")
    case True
    then have "NaN \<in> set (map parseInt_key ks)"
      by (force simp add: parseInt_key_def)
    then have "Math_max (map parseInt_key ks) = NaN"
      unfolding Math_max_def by (rule foldl_max2_has_NaN)
    with nonan show ?thesis
      by (simp add: plus_one_def)
  next
    case False
    define js where "js = map (\<lambda>k. case k of Fd i \<Rightarrow> i | _ \<Rightarrow> 0) ks"
    have ks: "ks = map Fd js"
      unfolding js_def using False nonan
      by (induction ks) (auto split: fdnum.splits)
    then have same: "map parseInt_key ks = map Fd js"
      by (simp add: parseInt_key_def)
    show ?thesis
    proof (cases js)
      case Nil
      with ks show ?thesis by simp
    next
      case (Cons j js')
      have "Math_max (map parseInt_key ks) = Fd (foldl max j js')"
        unfolding same Math_max_def Cons by (simp add: foldl_max2_ints)
      moreover have "\<forall>i \<in> set js. i \<le> foldl max j js'"
        using foldl_max_bound [of j js'] Cons by auto
      then have "foldl max j js' + 1 \<notin> set js"
        by auto
      moreover have "foldl max j js' \<in> set js"
        using foldl_max_mem [of j js'] Cons by simp
      then have "Fd (foldl max j js') \<in> set ks"
        using ks by simp
      then have "Fd (foldl max j js') \<in> fst ` set (fd this)"
        by (simp add: ks_def)
      then have "\<bar>foldl max j js'\<bar> < 2 ^ 53"
        using small by blast
      then have "js_plus (foldl max j js') 1 = foldl max j js' + 1"
        by (intro js_plus_exact) simp
      ultimately show ?thesis
        using ks by (auto simp add: plus_one_def)
    qed
  qed
  then show ?thesis
    unfolding h by (simp add: map_of_eq_None_iff ks_def)
qed

lemma isPermitted_all_access:
  "mode entry = 511 \<Longrightarrow> isPermitted this entry 4 \<and> isPermitted this entry 2"
  by (simp add: isPermitted_def Let_def)

lemma open_missing_denied:
  assumes "fl AND OpenFlag_WRITE K \<noteq> 0"
    and "fs_get K (filesystem this) w (resolve K path (env this ''PWD'')) None = Inl ENOENT"
    and "fs_get K (filesystem this) w (resolve K (dirname K path) (env this ''PWD'')) None = Inr parentEntry"
    and "\<not> isPermitted this (objects w parentEntry) 2"
  shows "Process_open K this w path fl = (Inl EACCES, this, w)"
  using assms by (simp add: Process_open_def)

lemma open_missing_created:
  assumes "fl AND OpenFlag_WRITE K \<noteq> 0"
    and "fs_get K (filesystem this) w (resolve K path (env this ''PWD'')) None = Inl ENOENT"
    and "fs_get K (filesystem this) w (resolve K (dirname K path) (env this ''PWD'')) None = Inr parentEntry"
    and "isPermitted this (objects w parentEntry) 2"
    and "fs_create K (filesystem this) w (dirname K path)
          \<lparr>name = basename K path, owner = 0, group = 0, mode = 511, deleted = False,
           kind = RegularFile []\<rparr> = (Inr (), w1)"
    and "fs_get K (filesystem this) w1 (resolve K path (env this ''PWD'')) (Some True) = Inr entry"
    and "objects w1 entry =
          \<lparr>name = basename K path, owner = 0, group = 0, mode = 511, deleted = False,
           kind = RegularFile []\<rparr>"
    and "fs_create K (filesystem this) w1
          (join K [PROCESS_DIRECTORY K, int_toString (pid this), ''fd''])
          \<lparr>name = fdnum_toString (fst (createFileDescriptor this path fl)), owner = 0, group = 0,
           mode = 448, deleted = False, kind = SymbolicLink path\<rparr> = (Inr (), w2)"
  shows "Process_open K this w path fl =
    (Inr (fst (createFileDescriptor this path fl)), snd (createFileDescriptor this path fl), w2)"
proof -
  have perm: "isPermitted this (objects w1 entry) 4" "isPermitted this (objects w1 entry) 2"
    using isPermitted_all_access [of "objects w1 entry" this] assms(7) by simp_all
  have notdir: "\<not> isDirectory (objects w1 entry)"
    using assms(7) by (simp add: isDirectory_def)
  have same: "filesystem (snd (createFileDescriptor this path fl)) = filesystem this"
    "pid (snd (createFileDescriptor this path fl)) = pid this"
    by (simp_all add: createFileDescriptor_def Let_def)
  have "open_resolved K this w1 path fl entry =
    (Inr (fst (createFileDescriptor this path fl)), snd (createFileDescriptor this path fl), w2)"
    using perm notdir assms(8) same
    by (simp add: open_resolved_def split_beta Let_def)
  with assms(1-6) show ?thesis
    by (simp add: Process_open_def)
qed

lemma createFileDescriptor_valid:
  "requireFileDescriptorData (snd (createFileDescriptor this path fl)) (fst (createFileDescriptor this path fl)) =
    Inr \<lparr>pathname = path, flags = fl, offset = 0\<rparr>"
  by (simp add: createFileDescriptor_def Let_def requireFileDescriptorData_def update_conv')

lemma unlink_cases:
  assumes "fs_get K (filesystem this) w (resolve K path (env this ''PWD'')) None = Inr entry"
  shows "fl AND UnlinkFlag_REMOVE_DIR K \<noteq> 0 \<and> \<not> isDirectory (objects w entry) \<longrightarrow>
      Process_unlink K this w path fl = (Inl ENOTDIR, this, w)"
    and "fl AND UnlinkFlag_REMOVE_DIR K \<noteq> 0 \<and> isDirectory (objects w entry) \<longrightarrow>
      Process_unlink K this w path fl =
        (case fs_delete K (filesystem this) w path (Some True) of
           (Inl e, w1) \<Rightarrow> (Inl e, this, w1)
         | (Inr _, w1) \<Rightarrow>
             (case fs_delete K (filesystem this) w1 path (Some False) of
                (Inl e, w2) \<Rightarrow> (Inl e, this, w2)
              | (Inr _, w2) \<Rightarrow> (Inr (), this, w2)))"
    and "fl AND UnlinkFlag_REMOVE_DIR K = 0 \<and> isDirectory (objects w entry) \<longrightarrow>
      Process_unlink K this w path fl = (Inl EISDIR, this, w)"
    and "fl AND UnlinkFlag_REMOVE_DIR K = 0 \<and> \<not> isDirectory (objects w entry) \<longrightarrow>
      Process_unlink K this w path fl =
        (case fs_delete K (filesystem this) w path (Some False) of
           (Inl e, w2) \<Rightarrow> (Inl e, this, w2)
         | (Inr _, w2) \<Rightarrow> (Inr (), this, w2))"
  using assms by (simp_all add: Process_unlink_def)

lemma close_unknown_entry:
  assumes "fs_get K (filesystem this) w
      (resolve K (join K [PROCESS_DIRECTORY K, int_toString (pid this), ''fd'', fdnum_toString n])
         (env this ''PWD'')) None = Inl e"
  shows "Process_close K this w n = (Inl e, this, w)"
  using assms by (simp add: Process_close_def Process_unlink_def)

lemma unlink_keeps_process: "fst (snd (Process_unlink K this w path fl)) = this"
  by (simp add: Process_unlink_def split: sum.split prod.split)

lemma close_forgets_handle:
  assumes "Process_close K this w n = (Inr (), this1, w1)"
  shows "requireFileDescriptorData this1 n = Inl EBADFD"
    and "Process_seek this1 n off = (Inl EBADFD, this1)"
    and "Process_read K this1 w1 n count = (Inl EBADFD, this1, w1)"
    and "Process_write K this1 w1 n buf count = (Inl EBADFD, this1, w1)"
proof -
  obtain r p w' where u: "Process_unlink K this w
      (join K [PROCESS_DIRECTORY K, int_toString (pid this), ''fd'', fdnum_toString n]) 0 = (r, p, w')"
    by (cases "Process_unlink K this w
      (join K [PROCESS_DIRECTORY K, int_toString (pid this), ''fd'', fdnum_toString n]) 0")
  have "p = this"
    using unlink_keeps_process [of K this w
      "join K [PROCESS_DIRECTORY K, int_toString (pid this), ''fd'', fdnum_toString n]" 0] u
    by simp
  with u assms have "this1 = this\<lparr>fd := AList.delete n (fd this)\<rparr>"
    by (cases r) (simp_all add: Process_close_def)
  then show r: "requireFileDescriptorData this1 n = Inl EBADFD"
    by (simp add: require_delete)
  then show "Process_seek this1 n off = (Inl EBADFD, this1)"
    "Process_read K this1 w1 n count = (Inl EBADFD, this1, w1)"
    "Process_write K this1 w1 n buf count = (Inl EBADFD, this1, w1)"
    by (simp_all add: Process_seek_def Process_read_def Process_write_def)
qed

lemma fstat_is_lstat:
  "map_of (fd this) n = Some fdd \<Longrightarrow> Process_fstat K this w n = Process_lstat K this w (pathname fdd)"
  by (simp add: Process_fstat_def Process_lstat_def requireFileDescriptorData_def)

lemma new_Process_identity: "uid (new_Process K init) = 0 \<and> gid (new_Process K init) = 0"
  by (simp add: new_Process_def)


subsection \<open>write and read\<close>

text \<open>
  Claim C2 fails as stated. The offset is a JavaScript number and \<open>seek\<close> stores any: after
  \<open>seek(fd, 2\<^sup>5\<^sup>3)\<close> a \<open>write\<close> of one byte appends the byte to the file and leaves the offset
  at \<open>2\<^sup>5\<^sup>3 = 9007199254740992\<close>, because the sum \<open>2\<^sup>5\<^sup>3 + 1\<close> is no double and rounds back.
  The offset did not advance by the length written. Likewise after
  \<open>seek(fd, -2\<^sup>5\<^sup>3 - 2)\<close> a \<open>write\<close> of one byte moves the offset to \<open>-2\<^sup>5\<^sup>3\<close>, by two.
\<close>

theorem write_offset_counterexample:
  "Process_seek demo_process (Fd 4) 9007199254740992 =
     (Inr (),
      demo_process\<lparr>fd := AList.update (Fd 4)
         \<lparr>pathname = ''/home/ab'', flags = 2, offset = 9007199254740992\<rparr> (fd demo_process)\<rparr>)
   \<and>
   Process_write demo_kernel
     (demo_process\<lparr>fd := AList.update (Fd 4)
         \<lparr>pathname = ''/home/ab'', flags = 2, offset = 9007199254740992\<rparr> (fd demo_process)\<rparr>)
     demo_storage (Fd 4) [0x58] None =
     (Inr (),
      demo_process\<lparr>fd := AList.update (Fd 4)
         \<lparr>pathname = ''/home/ab'', flags = 2, offset = 9007199254740992\<rparr> (fd demo_process)\<rparr>,
      demo_storage\<lparr>objects := (objects demo_storage)
         (6 := \<lparr>name = ''ab'', owner = 0, group = 0, mode = 438, deleted = False,
                kind = RegularFile [0x41, 0x42, 0x58]\<rparr>)\<rparr>)
   \<and>
   Process_write demo_kernel
     (demo_process\<lparr>fd := AList.update (Fd 4)
         \<lparr>pathname = ''/home/ab'', flags = 2, offset = - 9007199254740994\<rparr> (fd demo_process)\<rparr>)
     demo_storage (Fd 4) [0x58] None =
     (Inr (),
      demo_process\<lparr>fd := AList.update (Fd 4)
         \<lparr>pathname = ''/home/ab'', flags = 2, offset = - 9007199254740992\<rparr> (fd demo_process)\<rparr>,
      demo_storage\<lparr>objects := (objects demo_storage)
         (6 := \<lparr>name = ''ab'', owner = 0, group = 0, mode = 438, deleted = False,
                kind = RegularFile [0x58, 0x41, 0x42]\<rparr>)\<rparr>)"
  by (simp add: demo_defs)

text \<open>
  Claim C2, amended. For a descriptor open on a regular file with the WRITE flag and a
  whole-number offset \<open>k\<close>, where \<open>k\<close> is at least \<open>-2\<^sup>5\<^sup>3\<close> and \<open>k\<close> plus the length written is at
  most \<open>2\<^sup>5\<^sup>3\<close>: \<open>write\<close> puts the first \<open>count\<close> bytes of the buffer between the bytes
  before position \<open>k\<close> and the bytes from position \<open>k\<close> on, keeps both, and advances the
  offset by the length written. Position and count are read as \<open>slice\<close> reads them
  (\<open>position\<close>, \<open>first_bytes\<close>). Writing into an empty file at offset 0 and reading from
  offset 0 through the same descriptor returns what was written, provided the path still
  resolves to the file.
\<close>

theorem write_splices_at_offset:
  "(map_of (fd this) n = Some fdd \<and>
    flags fdd AND OpenFlag_WRITE K \<noteq> 0 \<and>
    fs_get K (filesystem this) w (resolve K (pathname fdd) (env this ''PWD'')) (Some True) = Inr entry \<and>
    kind (objects w entry) = RegularFile old \<and>
    - (2 ^ 53) \<le> offset fdd \<and> offset fdd + int (length (first_bytes buf count)) \<le> 2 ^ 53 \<longrightarrow>
    Process_write K this w n buf count =
      (Inr (),
       this\<lparr>fd := AList.update n
          (fdd\<lparr>offset := offset fdd + int (length (first_bytes buf count))\<rparr>) (fd this)\<rparr>,
       w\<lparr>objects := (objects w)
          (entry := (objects w entry)
             \<lparr>kind := RegularFile
                (take (position old (offset fdd)) old @ first_bytes buf count @
                 drop (position old (offset fdd)) old)\<rparr>)\<rparr>))
   \<and>
   (map_of (fd this) n = Some fdd \<and>
    flags fdd AND OpenFlag_WRITE K \<noteq> 0 \<and> flags fdd AND OpenFlag_READ K \<noteq> 0 \<and>
    offset fdd = 0 \<and>
    fs_get K (filesystem this) w (resolve K (pathname fdd) (env this ''PWD'')) (Some True) = Inr entry \<and>
    kind (objects w entry) = RegularFile [] \<and>
    fs_get K (filesystem this)
      (w\<lparr>objects := (objects w)(entry := (objects w entry)\<lparr>kind := RegularFile buf\<rparr>)\<rparr>)
      (resolve K (pathname fdd) (env this ''PWD'')) (Some True) = Inr entry \<longrightarrow>
    fst (Process_read K
           (snd (Process_seek (fst (snd (Process_write K this w n buf None))) n 0))
           (snd (snd (Process_write K this w n buf None))) n None) = Inr buf)"
proof -
  have exact: "js_plus (offset fdd) (int (length (first_bytes buf count))) =
      offset fdd + int (length (first_bytes buf count))"
    if "- (2 ^ 53) \<le> offset fdd" "offset fdd + int (length (first_bytes buf count)) \<le> 2 ^ 53"
    using that by (intro js_plus_exact) simp
  show ?thesis
    using write_regular [of this n fdd K w entry old buf count] exact
      write_then_read [of this n fdd K w entry buf]
    by (intro conjI impI) simp_all
qed

theorem write_splices_at_offset_witness:
  "Process_write demo_kernel demo_process demo_storage (Fd 4) [0x58] None =
     (Inr (),
      demo_process\<lparr>fd := AList.update (Fd 4)
         \<lparr>pathname = ''/home/ab'', flags = 2, offset = 2\<rparr> (fd demo_process)\<rparr>,
      demo_storage\<lparr>objects := (objects demo_storage)
         (6 := \<lparr>name = ''ab'', owner = 0, group = 0, mode = 438, deleted = False,
                kind = RegularFile [0x41, 0x58, 0x42]\<rparr>)\<rparr>)
   \<and>
   fst (Process_read demo_kernel
          (snd (Process_seek
             (fst (snd (Process_write demo_kernel demo_process demo_storage (Fd 3) [0x41, 0x42] None)))
             (Fd 3) 0))
          (snd (snd (Process_write demo_kernel demo_process demo_storage (Fd 3) [0x41, 0x42] None)))
          (Fd 3) None) = Inr [0x41, 0x42]
   \<and>
   Process_write demo_kernel
     (demo_process\<lparr>fd := AList.update (Fd 4)
         \<lparr>pathname = ''/home/ab'', flags = 2, offset = - 1\<rparr> (fd demo_process)\<rparr>)
     demo_storage (Fd 4) [0x58] None =
     (Inr (),
      demo_process\<lparr>fd := AList.update (Fd 4)
         \<lparr>pathname = ''/home/ab'', flags = 2, offset = 0\<rparr> (fd demo_process)\<rparr>,
      demo_storage\<lparr>objects := (objects demo_storage)
         (6 := \<lparr>name = ''ab'', owner = 0, group = 0, mode = 438, deleted = False,
                kind = RegularFile [0x41, 0x58, 0x42]\<rparr>)\<rparr>)"
proof -
  define moved where "moved = demo_process\<lparr>fd := AList.update (Fd 4)
         \<lparr>pathname = ''/home/ab'', flags = 2, offset = - 1\<rparr> (fd demo_process)\<rparr>"
  have from_end:
    "Process_write demo_kernel moved demo_storage (Fd 4) [0x58] None =
     (Inr (),
      moved\<lparr>fd := AList.update (Fd 4)
         (\<lparr>pathname = ''/home/ab'', flags = 2, offset = - 1\<rparr>
            \<lparr>offset := offset \<lparr>pathname = ''/home/ab'', flags = 2, offset = - 1\<rparr> +
               int (length (first_bytes [0x58 :: byte] None))\<rparr>)
         (fd moved)\<rparr>,
      demo_storage\<lparr>objects := (objects demo_storage)
         (6 := (objects demo_storage 6)
            \<lparr>kind := RegularFile
               (take (position [0x41, 0x42] (offset \<lparr>pathname = ''/home/ab'', flags = 2, offset = - 1\<rparr>))
                  [0x41, 0x42] @
                first_bytes [0x58] None @
                drop (position [0x41, 0x42] (offset \<lparr>pathname = ''/home/ab'', flags = 2, offset = - 1\<rparr>))
                  [0x41, 0x42])\<rparr>)\<rparr>)"
  proof (rule write_splices_at_offset [THEN conjunct1, rule_format], intro conjI)
    show "map_of (fd moved) (Fd 4) = Some \<lparr>pathname = ''/home/ab'', flags = 2, offset = - 1\<rparr>"
      by (simp add: moved_def demo_process_def)
    show "flags \<lparr>pathname = ''/home/ab'', flags = 2, offset = - 1\<rparr> AND OpenFlag_WRITE demo_kernel \<noteq> 0"
      by (simp add: demo_kernel_def)
    show "fs_get demo_kernel (filesystem moved) demo_storage
        (resolve demo_kernel (pathname \<lparr>pathname = ''/home/ab'', flags = 2, offset = - 1\<rparr>)
           (env moved ''PWD'')) (Some True) = Inr 6"
      by (simp add: moved_def demo_defs)
    show "kind (objects demo_storage 6) = RegularFile [0x41, 0x42]"
      by (simp add: demo_storage_def)
    show "- (2 ^ 53) \<le> offset \<lparr>pathname = ''/home/ab'', flags = 2, offset = - 1\<rparr>"
      by simp
    show "offset \<lparr>pathname = ''/home/ab'', flags = 2, offset = - 1\<rparr> +
        int (length (first_bytes [0x58 :: byte] None)) \<le> 2 ^ 53"
      by (simp add: first_bytes_def)
  qed
  have splice:
    "Process_write demo_kernel demo_process demo_storage (Fd 4) [0x58] None =
     (Inr (),
      demo_process\<lparr>fd := AList.update (Fd 4)
         (\<lparr>pathname = ''/home/ab'', flags = 2, offset = 1\<rparr>
            \<lparr>offset := offset \<lparr>pathname = ''/home/ab'', flags = 2, offset = 1\<rparr> +
               int (length (first_bytes [0x58 :: byte] None))\<rparr>)
         (fd demo_process)\<rparr>,
      demo_storage\<lparr>objects := (objects demo_storage)
         (6 := (objects demo_storage 6)
            \<lparr>kind := RegularFile
               (take (position [0x41, 0x42] (offset \<lparr>pathname = ''/home/ab'', flags = 2, offset = 1\<rparr>))
                  [0x41, 0x42] @
                first_bytes [0x58] None @
                drop (position [0x41, 0x42] (offset \<lparr>pathname = ''/home/ab'', flags = 2, offset = 1\<rparr>))
                  [0x41, 0x42])\<rparr>)\<rparr>)"
  proof (rule write_splices_at_offset [THEN conjunct1, rule_format], intro conjI)
    show "map_of (fd demo_process) (Fd 4) = Some \<lparr>pathname = ''/home/ab'', flags = 2, offset = 1\<rparr>"
      by (simp add: demo_process_def)
    show "flags \<lparr>pathname = ''/home/ab'', flags = 2, offset = 1\<rparr> AND OpenFlag_WRITE demo_kernel \<noteq> 0"
      by (simp add: demo_kernel_def)
    show "fs_get demo_kernel (filesystem demo_process) demo_storage
        (resolve demo_kernel (pathname \<lparr>pathname = ''/home/ab'', flags = 2, offset = 1\<rparr>)
           (env demo_process ''PWD'')) (Some True) = Inr 6"
      by (simp add: demo_defs)
    show "kind (objects demo_storage 6) = RegularFile [0x41, 0x42]"
      by (simp add: demo_storage_def)
    show "- (2 ^ 53) \<le> offset \<lparr>pathname = ''/home/ab'', flags = 2, offset = 1\<rparr>"
      by simp
    show "offset \<lparr>pathname = ''/home/ab'', flags = 2, offset = 1\<rparr> +
        int (length (first_bytes [0x58 :: byte] None)) \<le> 2 ^ 53"
      by (simp add: first_bytes_def)
  qed
  have roundtrip:
    "fst (Process_read demo_kernel
          (snd (Process_seek
             (fst (snd (Process_write demo_kernel demo_process demo_storage (Fd 3) [0x41, 0x42] None)))
             (Fd 3) 0))
          (snd (snd (Process_write demo_kernel demo_process demo_storage (Fd 3) [0x41, 0x42] None)))
          (Fd 3) None) = Inr [0x41, 0x42]"
  proof (rule write_splices_at_offset [THEN conjunct2, rule_format], intro conjI)
    show "map_of (fd demo_process) (Fd 3) = Some \<lparr>pathname = ''/home/empty'', flags = 3, offset = 0\<rparr>"
      by (simp add: demo_process_def)
    show "flags \<lparr>pathname = ''/home/empty'', flags = 3, offset = 0\<rparr> AND OpenFlag_WRITE demo_kernel \<noteq> 0"
      "flags \<lparr>pathname = ''/home/empty'', flags = 3, offset = 0\<rparr> AND OpenFlag_READ demo_kernel \<noteq> 0"
      by (simp_all add: demo_kernel_def)
    show "offset \<lparr>pathname = ''/home/empty'', flags = 3, offset = 0\<rparr> = 0"
      by simp
    show "fs_get demo_kernel (filesystem demo_process) demo_storage
        (resolve demo_kernel (pathname \<lparr>pathname = ''/home/empty'', flags = 3, offset = 0\<rparr>)
           (env demo_process ''PWD'')) (Some True) = Inr 12"
      by (simp add: demo_defs)
    show "kind (objects demo_storage 12) = RegularFile []"
      by (simp add: demo_storage_def)
    show "fs_get demo_kernel (filesystem demo_process)
        (demo_storage\<lparr>objects := (objects demo_storage)
           (12 := (objects demo_storage 12)\<lparr>kind := RegularFile [0x41, 0x42]\<rparr>)\<rparr>)
        (resolve demo_kernel (pathname \<lparr>pathname = ''/home/empty'', flags = 3, offset = 0\<rparr>)
           (env demo_process ''PWD'')) (Some True) = Inr 12"
      by (simp add: demo_defs)
  qed
  from splice roundtrip from_end show ?thesis
    by (simp add: moved_def demo_process_def demo_storage_def first_bytes_def position_def)
qed

subsection \<open>open on a missing path\<close>

text \<open>
  When \<open>open\<close> is given the WRITE flag and the lookup of the path fails with NotFound, the
  parent directory decides: without write permission on it the call fails with
  AccessDenied and neither the storage nor the process changes
  (\<open>open_missing_denied\<close>); with write permission a zero-length regular file named after
  the path is created in the parent and the call goes on to allocate a handle
  (\<open>open_missing_created\<close>).
\<close>

text \<open>
  Claim C3, at a process made without descriptors, as every process that \<open>spawn\<close> makes.
  Three calls of \<open>open\<close> with the WRITE flag on paths that do not exist under the
  writable directory \<open>/home\<close> create the three empty files, but the first call returns the
  handle \<open>-Infinity\<close>, the second \<open>NaN\<close> and the third allocates \<open>NaN\<close> again: the descriptor
  of the second call is replaced by that of the third, and on this backend, which
  refuses a second link of the same name, the third call fails with AlreadyExists.
  The claim has each call return a valid new descriptor.
\<close>

theorem open_allocates_handle_in_use:
  "(case Process_open demo_kernel (demo_process\<lparr>fd := []\<rparr>) demo_storage ''/home/n1'' 2 of
      (r1, p1, w1) \<Rightarrow>
        (case Process_open demo_kernel p1 w1 ''/home/n2'' 2 of
           (r2, p2, w2) \<Rightarrow>
             (case Process_open demo_kernel p2 w2 ''/home/n3'' 2 of
                (r3, p3, w3) \<Rightarrow>
                  r1 = Inr NegInfinity \<and> r2 = Inr NaN \<and> r3 = Inl EEXIST \<and>
                  fd p1 = [(NegInfinity, \<lparr>pathname = ''/home/n1'', flags = 2, offset = 0\<rparr>)] \<and>
                  fd p2 = [(NegInfinity, \<lparr>pathname = ''/home/n1'', flags = 2, offset = 0\<rparr>),
                           (NaN, \<lparr>pathname = ''/home/n2'', flags = 2, offset = 0\<rparr>)] \<and>
                  fd p3 = [(NegInfinity, \<lparr>pathname = ''/home/n1'', flags = 2, offset = 0\<rparr>),
                           (NaN, \<lparr>pathname = ''/home/n3'', flags = 2, offset = 0\<rparr>)] \<and>
                  map (map_of (tree w3)) [[''home'', ''n1''], [''home'', ''n2''], [''home'', ''n3'']] =
                    [Some 13, Some 15, Some 17] \<and>
                  map (\<lambda>r. kind (objects w3 r)) [13, 15, 17] =
                    [RegularFile [], RegularFile [], RegularFile []])))"
  by (simp add: demo_defs eval_nat_numeral)

subsection \<open>unlink\<close>

text \<open>
  For a path that resolves (without following a final link) to an entry, \<open>unlink_cases\<close>
  gives the four cases of \<open>unlink\<close>. Three are as the claim has them: with the
  remove-directory flag an entry that is no directory is refused with NotADirectory,
  without the flag a directory is refused with IsADirectory and any other entry is handed
  to the backend's plain delete. In the fourth, the flag on a directory, the recursive
  delete is followed by the plain delete of the same path: nothing returns in between.
\<close>

text \<open>
  Claim C7, at an empty directory. \<open>/ro\<close> is a directory without entries. \<open>unlink\<close> with the
  remove-directory flag removes it, and then fails with NotFound, the answer of the
  second delete for the path that is gone; the claim has the call remove the directory.
  The other three cases are run on \<open>/home/ab\<close> and \<open>/home\<close>.
\<close>

theorem unlink_directory_fails_after_removing_it:
  "map_of (tree demo_storage) [''ro''] = Some 5 \<and> isDirectory (objects demo_storage 5) \<and>
   Process_unlink demo_kernel demo_process demo_storage ''/ro'' 1 =
     (Inl ENOENT, demo_process,
      demo_storage\<lparr>tree := filter (\<lambda>e. take 1 (fst e) \<noteq> [''ro'']) (tree demo_storage)\<rparr>) \<and>
   map_of (filter (\<lambda>e. take 1 (fst e) \<noteq> [''ro'']) (tree demo_storage)) [''ro''] = None \<and>
   Process_unlink demo_kernel demo_process demo_storage ''/home/ab'' 1 =
     (Inl ENOTDIR, demo_process, demo_storage) \<and>
   Process_unlink demo_kernel demo_process demo_storage ''/home'' 0 =
     (Inl EISDIR, demo_process, demo_storage) \<and>
   Process_unlink demo_kernel demo_process demo_storage ''/home/ab'' 0 =
     (Inr (), demo_process,
      demo_storage\<lparr>tree := filter (\<lambda>e. fst e \<noteq> [''home'', ''ab'']) (tree demo_storage)\<rparr>)"
  by (simp add: demo_defs)

subsection \<open>close\<close>

text \<open>
  \<open>close\<close> never consults the descriptor table before it unlinks: when the descriptor
  link is missing it fails with the error of the backend's \<open>get\<close>. After a \<open>close\<close> that
  succeeded the handle is gone from the table, and \<open>seek\<close>, \<open>read\<close> and \<open>write\<close> on it
  fail with BadFileDescriptor (\<open>close_forgets_handle\<close>).
\<close>

text \<open>
  Claim C4, at a handle the process does not have. The claim asks for BadFileDescriptor;
  handle 7 is not in the table (so \<open>seek\<close>, \<open>read\<close> and \<open>write\<close> answer BadFileDescriptor),
  and \<open>close(7)\<close> fails with NotFound, the error of the lookup of \<open>/proc/1/fd/7\<close>.
\<close>

theorem close_unknown_handle_is_not_found:
  "requireFileDescriptorData demo_process (Fd 7) = Inl EBADFD \<and>
   Process_seek demo_process (Fd 7) 0 = (Inl EBADFD, demo_process) \<and>
   Process_close demo_kernel demo_process demo_storage (Fd 7) =
     (Inl ENOENT, demo_process, demo_storage)"
  by (simp add: demo_defs)

subsection \<open>stat, fstat, lstat\<close>

text \<open>
  \<open>fstat\<close> on a descriptor makes the very call \<open>lstat\<close> makes on the descriptor's path
  (\<open>fstat_is_lstat\<close>): neither passes \<open>true\<close> to \<open>get\<close>.
\<close>

text \<open>
  Claim C5, at a descriptor whose path is a symbolic link. Descriptor 5 is open on
  \<open>/home/l\<close>, a link to the regular file \<open>/home/ab\<close>. \<open>stat\<close> reports the file (type bits
  of a regular file over mode 0o666), \<open>lstat\<close> the link (type bits of a link over mode
  0o777), and \<open>fstat\<close> reports the link as well, where the claim has it resolve the link.
\<close>

theorem fstat_reports_the_link:
  "Process_stat demo_kernel demo_process demo_storage ''/home/l'' =
     Inr \<lparr>stat_mode = 0x81B6, stat_owner = 0, stat_group = 0, size = 0\<rparr> \<and>
   Process_lstat demo_kernel demo_process demo_storage ''/home/l'' =
     Inr \<lparr>stat_mode = 0xA1FF, stat_owner = 0, stat_group = 0, size = 0\<rparr> \<and>
   Process_fstat demo_kernel demo_process demo_storage (Fd 5) =
     Inr \<lparr>stat_mode = 0xA1FF, stat_owner = 0, stat_group = 0, size = 0\<rparr>"
  by (simp add: demo_defs)

subsection \<open>spawn\<close>

text \<open>
  Claim C6, at a parent that is not root. The parent has uid 5 and gid 7 and the pid
  counter stands at 2. The child gets pid 2, the counter becomes 3 and the parent's
  descriptor table is untouched, but the child runs with uid 0 and gid 0: the constructor
  ignores the identity that \<open>spawn\<close> passes. The three \<open>open\<close> calls on the child's empty
  table allocate the handles -Infinity, NaN and NaN, so the table ends with two
  descriptors (read, write); on this backend the third call fails on the duplicate
  link name and \<open>spawn\<close> throws before the body runs.
\<close>

theorem spawn_child_is_root:
  "uid demo_process = 5 \<and> gid demo_process = 7 \<and>
   (case spawn demo_kernel \<lparr>newPid = 2\<rparr> demo_process demo_storage (\<lambda>e p w. (Inr (), e, p, w)) of
      (r, emulator, parent, child, w) \<Rightarrow>
        r = Inl EEXIST \<and> newPid emulator = 3 \<and>
        fd parent = fd demo_process \<and> children parent = [2] \<and>
        pid child = 2 \<and> uid child = 0 \<and> gid child = 0 \<and>
        fd child =
          [(NegInfinity, \<lparr>pathname = ''/dev/tty1'', flags = 1, offset = 0\<rparr>),
           (NaN, \<lparr>pathname = ''/dev/tty1'', flags = 2, offset = 0\<rparr>)])"
  by (simp add: spawn_def new_Process_def demo_defs)


section \<open>Properties of the line editor\<close>

subsection \<open>Unfolding \<open>read\<close>\<close>

lemma read_Nil: "chars s = [] \<Longrightarrow>
  read push s = (Inr None, if push then s\<lparr>backward := backward s @ [117, 110, 100, 101, 102, 105, 110, 101, 100]\<rparr> else s)"
  by (subst read.simps) simp

lemma read_Cons: "chars s = char # rest \<Longrightarrow>
  read push s =
         (let s0 = s\<lparr>chars := rest\<rparr> in
          if char = 0x7F \<or> char = 0x08 then
            (case backspace s0 of
               (Inl e, s1) \<Rightarrow> (Inl e, s1)
             | (Inr _, s1) \<Rightarrow> (Inr (Some char), s1))
          else if char = 0x1B then
            (case read False s0 of
               (Inl e, s1) \<Rightarrow> (Inl e, s1)
             | (Inr r, s1) \<Rightarrow>
                 if r = Some 91 then
                   (case escape_loop [] s1 of
                      (Inl e, s2) \<Rightarrow> (Inl e, s2)
                    | (Inr (command, args), s2) \<Rightarrow>
                        (case run_command command args s2 of
                           (Inl e, s3) \<Rightarrow> (Inl e, s3)
                         | (Inr _, s3) \<Rightarrow> (Inr (Some char), s3)))
                 else (Inr (Some char), s1))
          else if char = 0x0A then (Inr (Some char), write_echo [char] (s0\<lparr>hasEnded := True\<rparr>))
          else (Inr (Some char),
                if push then write_echo [char] (s0\<lparr>backward := backward s0 @ [char]\<rparr>) else s0))"
  by (subst read.simps) (simp only: list.case)

subsection \<open>Every call is a sequence of primitive steps\<close>

lemma edits_read_escape_loop:
  "edits s (snd (read push s))"
  "edits s (snd (escape_loop args s))"
proof (induction push s and args s rule: read_escape_loop.induct)
  case (1 push s)
  show ?case
  proof (cases "chars s")
    case Nil
    then show ?thesis
      by (auto simp add: read_Nil intro: edits.intros)
  next
    case (Cons char rest)
    define s0 where "s0 = s\<lparr>chars := rest\<rparr>"
    have shift: "edits s s0"
      unfolding s0_def using Cons by (rule edits_shift)
    consider (bs) "char = 127 \<or> char = 8" | (esc) "\<not> (char = 127 \<or> char = 8)" "char = 27"
      | (nl) "\<not> (char = 127 \<or> char = 8)" "char \<noteq> 27" "char = 10"
      | (other) "\<not> (char = 127 \<or> char = 8)" "char \<noteq> 27" "char \<noteq> 10"
      by blast
    then show ?thesis
    proof cases
      case bs
      have "edits s (snd (backspace s0))"
        using shift edits_backspace by (rule edits_trans)
      with Cons bs show ?thesis
        by (auto simp add: read_Cons s0_def [symmetric] split: prod.split sum.split)
    next
      case esc
      obtain r1 s1 where r: "read False s0 = (r1, s1)"
        by (cases "read False s0")
      have e1: "edits s s1"
        using "1.IH"(1) [OF Cons s0_def esc] r shift by (auto intro: edits_trans)
      show ?thesis
      proof (cases "r1 = Inr (Some 91)")
        case False
        with Cons esc r e1 show ?thesis
          by (auto simp add: read_Cons s0_def [symmetric] split: prod.split sum.split)
      next
        case True
        obtain r2 s2 where l: "escape_loop [] s1 = (r2, s2)"
          by (cases "escape_loop [] s1")
        have e2: "edits s s2"
          using "1.IH"(2) [OF Cons s0_def esc r [symmetric] True refl] l e1
          by (auto intro: edits_trans)
        have e3: "edits s s3" if "run_command command args s2 = (r3, s3)" for command args r3 s3
          using edits_trans [OF e2 edits_command [of s2 command args]] that by simp
        from Cons esc r True l e2 e3 show ?thesis
          by (auto simp add: read_Cons s0_def [symmetric] split: prod.split sum.split)
      qed
    next
      case nl
      have "edits s (write_echo [10] (s\<lparr>chars := rest, hasEnded := True\<rparr>))"
        using Cons nl by (auto intro: edits_newline)
      with Cons nl show ?thesis
        by (simp add: read_Cons)
    next
      case other
      have "edits s (write_echo [char] (s\<lparr>chars := rest, backward := backward s @ [char]\<rparr>))"
        using Cons other by (auto intro: edits_push)
      with Cons other shift show ?thesis
        unfolding s0_def by (simp add: read_Cons Let_def)
    qed
  qed
next
  case (2 args s)
  obtain r1 s1 where r: "read False s = (r1, s1)"
    by (cases "read False s")
  have e1: "edits s s1"
    using "2.IH"(1) r by simp
  show ?case
  proof (cases r1)
    case (Inl e)
    with r e1 show ?thesis
      by (subst escape_loop.simps) simp
  next
    case (Inr b)
    show ?thesis
    proof (cases b)
      case None
      with r e1 Inr show ?thesis
        by (subst escape_loop.simps) simp
    next
      case (Some sequenceChar)
      show ?thesis
      proof (cases "sequenceChar = 59 \<or> 48 \<le> charCodeAt0 sequenceChar \<and> charCodeAt0 sequenceChar \<le> 57")
        case True
        have "edits s1 (snd (escape_loop (args @ [sequenceChar]) s1))"
          using "2.IH"(2) [OF r [symmetric] Inr Some True] .
        with e1 have "edits s (snd (escape_loop (args @ [sequenceChar]) s1))"
          by (rule edits_trans)
        with r Inr Some True show ?thesis
          by (subst escape_loop.simps) simp
      next
        case False
        with r e1 Inr Some show ?thesis
          by (subst escape_loop.simps) auto
      qed
    qed
  qed
qed

lemma edits_main_loop: "edits s (snd (main_loop s))"
proof (induction s rule: main_loop.induct)
  case (1 s)
  show ?case
  proof (cases "chars s = []")
    case True
    then show ?thesis
      by (subst main_loop.simps) (simp add: edits_refl)
  next
    case False
    obtain r1 s1 where r: "read True s = (r1, s1)"
      by (cases "read True s")
    have e1: "edits s s1"
      using edits_read_escape_loop(1) [of s True] r by simp
    show ?thesis
    proof (cases r1)
      case (Inl e)
      with False r e1 show ?thesis
        by (subst main_loop.simps) simp
    next
      case (Inr b)
      show ?thesis
      proof (cases "hasEnded s1")
        case True
        with False r e1 Inr show ?thesis
          by (subst main_loop.simps) simp
      next
        case ended: False
        have "edits s1 (snd (main_loop s1))"
          using "1.IH" [OF False r [symmetric] Inr ended] .
        with e1 have "edits s (snd (main_loop s1))"
          by (rule edits_trans)
        with False r Inr ended show ?thesis
          by (subst main_loop.simps) simp
      qed
    qed
  qed
qed


subsection \<open>Primitive steps\<close>

lemma digits_range: "set (digits n) \<subseteq> {48..57}"
proof (induction n rule: digits.induct)
  case (1 n)
  show ?case
  proof (cases "n < 10")
    case True
    then show ?thesis
      by (subst digits.simps) auto
  next
    case False
    have "n mod 10 < 10"
      by simp
    then have "48 + n mod 10 \<in> {48..57}"
      by auto
    with 1 False show ?thesis
      by (subst digits.simps) auto
  qed
qed

lemma bell_not_digit [simp]: "7 \<notin> set (digits n)"
  using digits_range [of n] by auto

lemma digits_small: "n < 10 \<Longrightarrow> digits n = [48 + n]"
  by (subst digits.simps) simp

lemma match_last_Some: "match_last str = Some c \<Longrightarrow> str = replace_last str @ [c] \<and> \<not> LineTerminator c"
  by (auto simp add: match_last_def replace_last_def split: if_splits)

lemma match_first_Some: "match_first str = Some c \<Longrightarrow> str = c # replace_first str \<and> \<not> LineTerminator c"
  by (auto simp add: match_first_def replace_first_def split: list.splits if_splits)

lemma js_length_0 [simp]: "js_length str = 0 \<longleftrightarrow> str = []"
  by (induction str) (auto simp add: js_length_def)

lemma backspace_cases:
  obtains (empty) "backward s = []" "backspace s = (Inr (), bell s)"
  | (throws) "backward s \<noteq> []" "match_last (backward s) = None" "backspace s = (Inl TypeError, s)"
  | (removes) c where "match_last (backward s) = Some c"
      "backspace s = (Inr (), s\<lparr>backward := replace_last (backward s),
                                 shiftCount := shiftCount s + js_length [c],
                                 response := response s @ [27, 91] @ digits (js_length [c]) @ [68]\<rparr>)"
proof (cases "backward s = []")
  case True
  then show ?thesis
    using empty by (simp add: backspace_def)
next
  case False
  show ?thesis
  proof (cases "match_last (backward s)")
    case None
    with False show ?thesis
      using throws by (simp add: backspace_def)
  next
    case (Some c)
    with False show ?thesis
      using removes [of c] by (simp add: backspace_def Let_def write_echo_def getLength_def)
  qed
qed

lemma run_command_cases:
  obtains (same) "run_command command args s = (Inr (), s)"
  | (bell) "run_command command args s = (Inr (), bell s)"
  | (throws) "run_command command args s = (Inl TypeError, s)"
  | (right) c where "command = Some 67" "match_first (forward s) = Some c"
      "run_command command args s =
        (Inr (), s\<lparr>backward := backward s @ [c], forward := replace_first (forward s),
                    response := response s @ [27, 91] @ digits (js_length [c]) @ [67]\<rparr>)"
  | (left) c where "command = Some 68" "match_last (backward s) = Some c"
      "run_command command args s =
        (Inr (), s\<lparr>forward := c # forward s, backward := replace_last (backward s),
                    response := response s @ [27, 91] @ digits (js_length [c]) @ [68]\<rparr>)"
  | (to_home) "command = Some 72" "backward s \<noteq> []"
      "run_command command args s =
        (Inr (), s\<lparr>forward := backward s @ forward s, backward := [],
                    response := response s @ [27, 91] @ digits (js_length (backward s)) @ [68]\<rparr>)"
  | (to_end) "command = Some 70" "forward s \<noteq> []"
      "run_command command args s =
        (Inr (), s\<lparr>backward := backward s @ forward s, forward := [],
                    response := response s @ [27, 91] @ digits (js_length (forward s)) @ [67]\<rparr>)"
proof -
  consider (ab) "command = Some 65 \<or> command = Some 66"
    | (c) "command = Some 67" | (d) "command = Some 68" | (h) "command = Some 72" | (f) "command = Some 70"
    | (other) "command \<noteq> Some 65" "command \<noteq> Some 66" "command \<noteq> Some 67" "command \<noteq> Some 68"
        "command \<noteq> Some 72" "command \<noteq> Some 70"
    by blast
  then show ?thesis
  proof cases
    case ab
    then show ?thesis using same by (auto simp add: run_command_def)
  next
    case c
    show ?thesis
    proof (cases "forward s = []")
      case True
      with c show ?thesis using bell by (simp add: run_command_def)
    next
      case False
      show ?thesis
      proof (cases "match_first (forward s)")
        case None
        with c False show ?thesis using throws by (simp add: run_command_def)
      next
        case (Some m)
        with c False show ?thesis
          using right [of m] by (simp add: run_command_def Let_def write_echo_def getLength_def)
      qed
    qed
  next
    case d
    show ?thesis
    proof (cases "backward s = []")
      case True
      with d show ?thesis using bell by (simp add: run_command_def)
    next
      case False
      show ?thesis
      proof (cases "match_last (backward s)")
        case None
        with d False show ?thesis using throws by (simp add: run_command_def)
      next
        case (Some m)
        with d False show ?thesis
          using left [of m] by (simp add: run_command_def Let_def write_echo_def getLength_def)
      qed
    qed
  next
    case h
    show ?thesis
    proof (cases "backward s = []")
      case True
      with h show ?thesis using bell by (simp add: run_command_def)
    next
      case False
      with h show ?thesis
        using to_home by (simp add: run_command_def Let_def write_echo_def getLength_def)
    qed
  next
    case f
    show ?thesis
    proof (cases "forward s = []")
      case True
      with f show ?thesis using bell by (simp add: run_command_def)
    next
      case False
      with f show ?thesis
        using to_end by (simp add: run_command_def Let_def write_echo_def getLength_def)
    qed
  next
    case other
    then show ?thesis using same by (simp add: run_command_def)
  qed
qed


subsection \<open>What the primitive steps preserve\<close>

lemma bell_fields [simp]:
  "forward (bell s) = forward s" "backward (bell s) = backward s"
  "hasEnded (bell s) = hasEnded s" "shiftCount (bell s) = shiftCount s"
  by (simp_all add: bell_def)

lemma write_echo_fields [simp]:
  "forward (write_echo x s) = forward s" "backward (write_echo x s) = backward s"
  "hasEnded (write_echo x s) = hasEnded s" "shiftCount (write_echo x s) = shiftCount s"
  "response (write_echo x s) = response s @ x"
  by (simp_all add: write_echo_def)

lemma hasEnded_backspace [simp]: "hasEnded (snd (backspace s)) = hasEnded s"
  by (cases s rule: backspace_cases) simp_all

lemma hasEnded_run_command [simp]: "hasEnded (snd (run_command command args s)) = hasEnded s"
  by (cases command args s rule: run_command_cases) simp_all

lemma line_run_command:
  "backward (snd (run_command command args s)) @ forward (snd (run_command command args s)) =
   backward s @ forward s"
proof (cases command args s rule: run_command_cases)
  case (right c)
  then show ?thesis
    using match_first_Some [of "forward s" c] by simp
next
  case (left c)
  then show ?thesis
    using match_last_Some [of "backward s" c] by simp
qed simp_all

lemma edits_ended:
  "edits s s' \<Longrightarrow>
    set (chars s') \<subseteq> set (chars s) \<and> (hasEnded s' \<longrightarrow> hasEnded s \<or> 10 \<in> set (chars s))"
proof (induction rule: edits.induct)
  case (edits_trans s s1 s2)
  then show ?case by blast
qed auto

lemma count_bell_digits [simp]: "count_list (digits n) 7 = 0"
  by (simp add: count_list_0_iff)

lemma bell_free_bell: "bell_free s \<Longrightarrow> bell_free (bell s)"
  by (auto simp add: bell_free_def bell_def count_list_0_iff)

lemma set_replace_last: "set (replace_last str) \<subseteq> set str"
  by (auto simp add: replace_last_def dest: in_set_butlastD)

lemma set_replace_first: "set (replace_first str) \<subseteq> set str"
  by (auto simp add: replace_first_def split: list.splits)

lemma bell_free_backspace: "bell_free s \<Longrightarrow> bell_free (snd (backspace s))"
proof (cases s rule: backspace_cases)
  case empty
  then show "bell_free s \<Longrightarrow> ?thesis" by (simp add: bell_free_bell)
next
  case throws
  then show "bell_free s \<Longrightarrow> ?thesis" by simp
next
  case (removes c)
  then show "bell_free s \<Longrightarrow> ?thesis"
    using set_replace_last [of "backward s"] by (auto simp add: bell_free_def)
qed

lemma bell_free_run_command: "bell_free s \<Longrightarrow> bell_free (snd (run_command command args s))"
proof (cases command args s rule: run_command_cases)
  case bell
  then show "bell_free s \<Longrightarrow> ?thesis" by (simp add: bell_free_bell)
next
  case (right c)
  then show "bell_free s \<Longrightarrow> ?thesis"
    using set_replace_first [of "forward s"] match_first_Some [of "forward s" c]
    by (auto simp add: bell_free_def) (metis list.set_intros(1))
next
  case (left c)
  then show "bell_free s \<Longrightarrow> ?thesis"
    using set_replace_last [of "backward s"] match_last_Some [of "backward s" c]
    by (auto simp add: bell_free_def) (metis in_set_conv_decomp)
qed (auto simp add: bell_free_def)

lemma edits_bell_free: "edits s s' \<Longrightarrow> bell_free s \<Longrightarrow> bell_free s'"
proof (induction rule: edits.induct)
  case (edits_backspace s)
  then show ?case by (rule bell_free_backspace)
next
  case (edits_command s command args)
  then show ?case by (rule bell_free_run_command)
qed (auto simp add: bell_free_def)

lemma response_bell: "7 \<in> set (response (bell s))"
  by (simp add: bell_def)

lemma edits_keeps_bell: "edits s s' \<Longrightarrow> 7 \<in> set (response s) \<Longrightarrow> 7 \<in> set (response s')"
proof (induction rule: edits.induct)
  case (edits_backspace s)
  then show ?case
    by (cases s rule: backspace_cases) (auto simp add: bell_def)
next
  case (edits_command s command args)
  then show ?case
    by (cases command args s rule: run_command_cases) (auto simp add: bell_def)
qed auto


subsection \<open>Decoding ASCII input\<close>

lemma utf8_decode_ascii_prefix:
  "\<forall>b \<in> set pre. b \<le> 0x7F \<Longrightarrow> utf8_decode (pre @ bs) Idle = pre @ utf8_decode bs Idle"
  by (induction pre) (simp_all add: utf8_byte_def utf8_lead_def)

lemma replaceAll_CRLF_Cons: "c \<noteq> 13 \<Longrightarrow> replaceAll_CRLF (c # cs) = c # replaceAll_CRLF cs"
  by (cases cs) simp_all

lemma replaceAll_CRLF_prefix:
  "13 \<notin> set pre \<Longrightarrow> replaceAll_CRLF (pre @ cs) = pre @ replaceAll_CRLF cs"
  by (induction pre) (simp_all add: replaceAll_CRLF_Cons)

lemma replaceAll_CR_prefix:
  "13 \<notin> set pre \<Longrightarrow> replaceAll_CR (pre @ cs) = pre @ replaceAll_CR cs"
  by (induction pre) (auto simp add: replaceAll_CR_def)

lemma input_chars_ascii_prefix:
  assumes ascii: "\<forall>b \<in> set pre. unat b \<le> 0x7F \<and> unat b \<noteq> 13" and "pre \<noteq> []"
  shows "input_chars (pre @ rest) = map unat pre @ input_tail rest"
proof -
  have a: "\<forall>b \<in> set (map unat pre). b \<le> 0x7F" and cr: "13 \<notin> set (map unat pre)"
    using ascii by auto
  have dec: "utf8_decode (map unat (pre @ rest)) Idle = map unat pre @ utf8_decode (map unat rest) Idle"
    using utf8_decode_ascii_prefix [OF a] by simp
  obtain b pre' where pre: "pre = b # pre'"
    using \<open>pre \<noteq> []\<close> by (cases pre) auto
  then have "unat b \<noteq> 0xFEFF"
    using ascii by auto
  then have "TextDecoder_decode (pre @ rest) = map unat pre @ utf8_decode (map unat rest) Idle"
    unfolding TextDecoder_decode_def dec by (simp add: pre)
  then show ?thesis
    using cr by (simp add: input_chars_def input_tail_def replaceAll_CRLF_prefix replaceAll_CR_prefix)
qed

lemma input_tail_Nil [simp]: "input_tail [] = []"
  by (simp add: input_tail_def replaceAll_CR_def)

subsection \<open>Reading one escape sequence\<close>

lemma read_plain_no_push:
  "chars s = c # rest \<Longrightarrow> c \<noteq> 0x7F \<Longrightarrow> c \<noteq> 0x08 \<Longrightarrow> c \<noteq> 0x1B \<Longrightarrow> c \<noteq> 0x0A \<Longrightarrow>
    read False s = (Inr (Some c), s\<lparr>chars := rest\<rparr>)"
  by (simp add: read_Cons)

lemma is_parameter_charCode:
  "is_parameter c \<longleftrightarrow> c = 59 \<or> (48 \<le> charCodeAt0 c \<and> charCodeAt0 c \<le> 57)"
  by (auto simp add: is_parameter_def charCodeAt0_def)

lemma escape_loop_parameters:
  "\<forall>p \<in> set params. is_parameter p \<Longrightarrow> chars s = params @ rest \<Longrightarrow>
    escape_loop args s = escape_loop (args @ params) (s\<lparr>chars := rest\<rparr>)"
proof (induction params arbitrary: args s)
  case Nil
  then have "s\<lparr>chars := rest\<rparr> = s"
    by (cases s) simp
  then show ?case by simp
next
  case (Cons p params)
  then have p: "is_parameter p" and c: "chars s = p # (params @ rest)"
    by simp_all
  from p have plain: "p \<noteq> 0x7F" "p \<noteq> 0x08" "p \<noteq> 0x1B" "p \<noteq> 0x0A"
    by (auto simp add: is_parameter_def)
  have r: "read False s = (Inr (Some p), s\<lparr>chars := params @ rest\<rparr>)"
    using read_plain_no_push [OF c plain] .
  have "escape_loop args s = escape_loop (args @ [p]) (s\<lparr>chars := params @ rest\<rparr>)"
    using p by (subst escape_loop.simps) (simp add: r is_parameter_charCode)
  also have "\<dots> = escape_loop ((args @ [p]) @ params) (s\<lparr>chars := params @ rest, chars := rest\<rparr>)"
    using Cons.prems by (intro Cons.IH) simp_all
  finally show ?case by simp
qed

lemma escape_loop_command:
  "chars s = c # rest \<Longrightarrow> c \<in> {67, 68, 70, 72} \<Longrightarrow>
    escape_loop args s = (Inr (Some c, args), s\<lparr>chars := rest\<rparr>)"
  by (subst escape_loop.simps) (auto simp add: read_Cons charCodeAt0_def)

lemma run_command_ignores_args: "run_command command args s = run_command command [] s"
  by (simp add: run_command_def)

lemma read_escape_sequence:
  assumes "\<forall>p \<in> set params. is_parameter p" and "c \<in> {67, 68, 70, 72}"
    and "chars s = 27 # 91 # params @ c # rest"
  shows "read push s =
    (case run_command (Some c) [] (s\<lparr>chars := rest\<rparr>) of
       (Inl e, s3) \<Rightarrow> (Inl e, s3)
     | (Inr _, s3) \<Rightarrow> (Inr (Some 27), s3))"
proof -
  have "escape_loop [] (s\<lparr>chars := params @ c # rest\<rparr>) =
      escape_loop ([] @ params) (s\<lparr>chars := params @ c # rest, chars := c # rest\<rparr>)"
    using assms(1) by (intro escape_loop_parameters) simp_all
  also have "\<dots> = (Inr (Some c, params), s\<lparr>chars := rest\<rparr>)"
    using escape_loop_command [of "s\<lparr>chars := c # rest\<rparr>" c rest params] assms(2) by simp
  finally have loop: "escape_loop [] (s\<lparr>chars := params @ c # rest\<rparr>) =
      (Inr (Some c, params), s\<lparr>chars := rest\<rparr>)" .
  show ?thesis
    using assms(3)
    by (simp add: read_Cons [of s] read_Cons [of "s\<lparr>chars := 91 # params @ c # rest\<rparr>"] loop
        run_command_ignores_args [of _ params])
qed

subsection \<open>The bell\<close>

lemma read_backspace_on_empty:
  assumes "chars s = c # rest" "c = 0x7F \<or> c = 0x08" "backward s = []"
  shows "read push s = (Inr (Some c), bell (s\<lparr>chars := rest\<rparr>))"
  using assms by (auto simp add: read_Cons backspace_def)

lemma read_on_empty_Nil: "chars s = [] \<Longrightarrow> read_on_empty push s = False"
  by (subst read_on_empty.simps) simp

lemma read_on_empty_Cons: "chars s = char # rest \<Longrightarrow>
  read_on_empty push s =
         (let s0 = s\<lparr>chars := rest\<rparr> in
          if char = 0x7F \<or> char = 0x08 then js_length (backward s0) = 0
          else if char = 0x1B then
            (if read_on_empty False s0 then True
             else case read False s0 of
                 (Inl e, s1) \<Rightarrow> False
               | (Inr r, s1) \<Rightarrow> if r = Some 91 then escape_loop_on_empty s1 else False)
          else False)"
  by (subst read_on_empty.simps) (simp only: list.case)

text \<open>
  What \<open>read\<close> and the loop of an escape sequence do after an inner \<open>read(false)\<close> is a
  sequence of primitive steps, so a bell rung by the inner call stays in the echo.
\<close>

lemma escape_loop_after_read: "edits (snd (read False s)) (snd (escape_loop args s))"
proof -
  obtain r1 s1 where r: "read False s = (r1, s1)"
    by (cases "read False s")
  have "edits s1 (snd (escape_loop (args @ [c]) s1))" for c
    by (rule edits_read_escape_loop)
  then show ?thesis
    using r by (subst escape_loop.simps) (auto intro: edits_refl split: sum.splits option.splits)
qed

lemma read_after_escape_loop:
  assumes "chars s = 0x1B # rest" "read False (s\<lparr>chars := rest\<rparr>) = (Inr (Some 91), s1)"
  shows "edits (snd (escape_loop [] s1)) (snd (read push s))"
proof -
  obtain x s2 where l: "escape_loop [] s1 = (x, s2)"
    by (cases "escape_loop [] s1")
  have "edits s2 s3" if "run_command command args s2 = (y, s3)" for command args y s3
    using edits_command [of s2 command args] that by simp
  then show ?thesis
    using assms l
    by (auto simp add: read_Cons Let_def intro: edits_refl split: sum.splits prod.splits)
qed

lemma read_after_read:
  assumes "chars s = 0x1B # rest"
  shows "edits (snd (read False (s\<lparr>chars := rest\<rparr>))) (snd (read push s))"
proof -
  obtain r1 s1 where r: "read False (s\<lparr>chars := rest\<rparr>) = (r1, s1)"
    by (cases "read False (s\<lparr>chars := rest\<rparr>)")
  show ?thesis
  proof (cases "r1 = Inr (Some 91)")
    case True
    have "edits s1 (snd (escape_loop [] s1))"
      by (rule edits_read_escape_loop)
    moreover have "edits (snd (escape_loop [] s1)) (snd (read push s))"
      using assms r True by (intro read_after_escape_loop) simp_all
    ultimately show ?thesis
      using r by (auto intro: edits_trans)
  next
    case False
    with assms r show ?thesis
      by (auto simp add: read_Cons Let_def intro: edits_refl split: sum.splits)
  qed
qed

lemma on_empty_rings:
  "read_on_empty push s \<Longrightarrow> 7 \<in> set (response (snd (read push s)))"
  "escape_loop_on_empty s \<Longrightarrow> \<forall>args. 7 \<in> set (response (snd (escape_loop args s)))"
proof (induction push s and s rule: read_on_empty_escape_loop_on_empty.induct)
  case (1 push s)
  note inner = "1.IH"(1) and loop = "1.IH"(2)
  from "1.prems" obtain char rest where c: "chars s = char # rest"
    by (cases "chars s") (simp_all add: read_on_empty_Nil)
  define s0 where "s0 = s\<lparr>chars := rest\<rparr>"
  note event = "1.prems" [unfolded read_on_empty_Cons [OF c] Let_def, folded s0_def]
  show ?case
  proof (cases "char = 0x7F \<or> char = 0x08")
    case True
    with event have "backward s = []"
      by (simp add: s0_def)
    then have "read push s = (Inr (Some char), bell (s\<lparr>chars := rest\<rparr>))"
      using read_backspace_on_empty [OF c True] by simp
    then show ?thesis
      by (simp add: response_bell)
  next
    case False
    with event have esc: "char = 0x1B"
      by (simp split: if_splits)
    from c esc have c': "chars s = 0x1B # rest"
      by simp
    obtain r1 s1 where r: "read False s0 = (r1, s1)"
      by (cases "read False s0")
    show ?thesis
    proof (cases "read_on_empty False s0")
      case True
      then have "7 \<in> set (response (snd (read False s0)))"
        using inner [OF c s0_def False esc] by simp
      moreover have "edits (snd (read False s0)) (snd (read push s))"
        unfolding s0_def using c' by (rule read_after_read)
      ultimately show ?thesis
        by (rule edits_keeps_bell [rotated])
    next
      case quiet: False
      with event False esc r have bracket: "r1 = Inr (Some 91)" and later: "escape_loop_on_empty s1"
        by (auto split: sum.splits if_splits)
      have "\<forall>args. 7 \<in> set (response (snd (escape_loop args s1)))"
        using loop [OF c s0_def False esc quiet r [symmetric] bracket refl] later by simp
      then have "7 \<in> set (response (snd (escape_loop [] s1)))"
        by simp
      moreover have "edits (snd (escape_loop [] s1)) (snd (read push s))"
        using c' r bracket by (intro read_after_escape_loop) (simp_all add: s0_def)
      ultimately show ?thesis
        by (rule edits_keeps_bell [rotated])
    qed
  qed
next
  case (2 s)
  note inner = "2.IH"(1) and loop = "2.IH"(2)
  note event = "2.prems" [unfolded escape_loop_on_empty.simps [of s]]
  obtain r1 s1 where r: "read False s = (r1, s1)"
    by (cases "read False s")
  show ?case
  proof (cases "read_on_empty False s")
    case True
    then have rung: "7 \<in> set (response (snd (read False s)))"
      by (rule inner)
    show ?thesis
    proof
      fix args
      have "edits (snd (read False s)) (snd (escape_loop args s))"
        by (rule escape_loop_after_read)
      then show "7 \<in> set (response (snd (escape_loop args s)))"
        using rung by (rule edits_keeps_bell)
    qed
  next
    case quiet: False
    with event r obtain sequenceChar where some: "r1 = Inr (Some sequenceChar)"
      and parameter: "sequenceChar = 59 \<or>
        (48 \<le> charCodeAt0 sequenceChar \<and> charCodeAt0 sequenceChar \<le> 57)"
      and later: "escape_loop_on_empty s1"
      by (auto split: sum.splits option.splits if_splits)
    have rest: "\<forall>args. 7 \<in> set (response (snd (escape_loop args s1)))"
      using loop [OF quiet r [symmetric] some refl parameter] later by simp
    show ?thesis
    proof
      fix args
      have "escape_loop args s = escape_loop (args @ [sequenceChar]) s1"
        using r some parameter by (subst escape_loop.simps) simp
      with rest show "7 \<in> set (response (snd (escape_loop args s)))"
        by simp
    qed
  qed
qed

lemma backspace_on_empty_rings:
  "backspace_on_empty s \<Longrightarrow> 7 \<in> set (response (snd (main_loop s)))"
proof (induction s rule: main_loop.induct)
  case (1 s)
  from "1.prems" have nonempty: "chars s \<noteq> []"
    by (subst (asm) backspace_on_empty.simps) (simp split: if_splits)
  obtain r1 s1 where r: "read True s = (r1, s1)"
    by (cases "read True s")
  show ?case
  proof (cases "read_on_empty True s")
    case True
    then have "7 \<in> set (response (snd (read True s)))"
      by (rule on_empty_rings)
    with r have rung: "7 \<in> set (response s1)"
      by simp
    have "edits s1 (snd (main_loop s1))"
      by (rule edits_main_loop)
    then have "7 \<in> set (response (snd (main_loop s1)))"
      using rung by (rule edits_keeps_bell)
    with nonempty r rung show ?thesis
      by (subst main_loop.simps) (simp split: sum.splits)
  next
    case False
    with "1.prems" nonempty r obtain b where ok: "r1 = Inr b" and running: "\<not> hasEnded s1"
      and later: "backspace_on_empty s1"
      by (subst (asm) backspace_on_empty.simps) (auto split: sum.splits if_splits)
    have "7 \<in> set (response (snd (main_loop s1)))"
      using "1.IH" [OF nonempty r [symmetric] ok running later] .
    with nonempty r ok running show ?thesis
      by (subst main_loop.simps) simp
  qed
qed

lemma bell_free_call_state:
  "7 \<notin> set (input_chars value) \<Longrightarrow> 7 \<notin> set (forward this) \<Longrightarrow> 7 \<notin> set (backward this) \<Longrightarrow>
    bell_free (call_state this value)"
  by (simp add: bell_free_def call_state_def ReadInstance.extend_def)

lemma process_one_bell:
  assumes "7 \<notin> set (input_chars value)" "7 \<notin> set (forward this)" "7 \<notin> set (backward this)"
    and event: "backspace_on_empty (call_state this value)"
    and ok: "fst (process this value) = Inr echo"
  shows "count_list echo 7 = 1"
proof -
  define s0 where "s0 = call_state this value"
  obtain r1 s1 where m: "main_loop s0 = (r1, s1)"
    by (cases "main_loop s0")
  have e: "edits s0 s1"
    using edits_main_loop [of s0] m by simp
  have "bell_free s0"
    unfolding s0_def using assms(1-3) by (rule bell_free_call_state)
  with e have bf: "bell_free s1"
    by (rule edits_bell_free)
  have "7 \<in> set (response s1)"
    using backspace_on_empty_rings [of s0] event m by (simp add: s0_def)
  then have "count_list (response s1) 7 \<noteq> 0"
    by (simp add: count_list_0_iff)
  with bf have one: "count_list (response s1) 7 = 1"
    by (simp add: bell_free_def)
  have fwd: "count_list (forward s1) 7 = 0"
    using bf by (simp add: bell_free_def count_list_0_iff)
  from ok m have "echo = response s1 @
      (if js_length (forward s1) + shiftCount s1 > 0
       then forward s1 @ replicate (shiftCount s1) 32 @
            [0x1B, 91] @ digits (js_length (forward s1) + shiftCount s1) @ [68]
       else [])"
    by (cases r1) (auto simp add: process_def s0_def)
  with one fwd show ?thesis
    by (simp add: count_list_0_iff)
qed

subsection \<open>Whole calls\<close>

lemma main_loop_escape_sequence:
  assumes "\<forall>p \<in> set params. is_parameter p" and "c \<in> {67, 68, 70, 72}"
    and "chars s = 27 # 91 # params @ c # rest"
  shows "main_loop s =
    (case run_command (Some c) [] (s\<lparr>chars := rest\<rparr>) of
       (Inl e, s3) \<Rightarrow> (Inl e, s3)
     | (Inr _, s3) \<Rightarrow> if hasEnded s3 then (Inr (), s3) else main_loop s3)"
  using assms(3)
  by (subst main_loop.simps)
     (simp add: read_escape_sequence [OF assms] split: prod.split sum.split)

lemma call_state_chars:
  "(call_state this value)\<lparr>chars := cs\<rparr> =
    ReadInstance.extend this \<lparr>chars = cs, response = [], shiftCount = 0\<rparr>"
  by (simp add: call_state_def ReadInstance.extend_def)

lemma chars_call_state [simp]: "chars (call_state this value) = input_chars value"
  by (simp add: call_state_def ReadInstance.extend_def)

lemma snd_process:
  "snd (process this value) = ReadInstance.truncate (snd (main_loop (call_state this value)))"
  by (simp add: process_def split: prod.split sum.split)

lemma truncate_fields [simp]:
  "forward (ReadInstance.truncate s) = forward s"
  "backward (ReadInstance.truncate s) = backward s"
  "hasEnded (ReadInstance.truncate s) = hasEnded s"
  by (simp_all add: ReadInstance.truncate_def)

lemma call_state_fields [simp]:
  "forward (call_state this value) = forward this"
  "backward (call_state this value) = backward this"
  "hasEnded (call_state this value) = hasEnded this"
  "response (call_state this value) = []"
  "shiftCount (call_state this value) = 0"
  by (simp_all add: call_state_def ReadInstance.extend_def)

lemma parameter_bytes:
  fixes p :: byte
  assumes "p = 0x3B \<or> (0x30 \<le> p \<and> p \<le> 0x39)"
  shows "is_parameter (unat p)" "unat p \<le> 0x7F" "unat p \<noteq> 13"
  using assms by (auto simp add: is_parameter_def word_le_nat_alt)

lemma process_parameters_unused:
  fixes params :: "byte list" and c :: byte
  assumes params: "\<forall>p \<in> set params. p = 0x3B \<or> (0x30 \<le> p \<and> p \<le> 0x39)"
    and c: "c \<in> {0x43, 0x44, 0x46, 0x48}"
  shows "process this (0x1B # 0x5B # params @ c # rest) = process this (0x1B # 0x5B # c # rest)"
proof -
  have cmd: "unat c \<in> {67, 68, 70, 72}"
    using c by auto
  have ps: "\<forall>p \<in> set (map unat params). is_parameter p"
    using params parameter_bytes(1) by auto
  have ascii: "\<forall>b \<in> set (0x1B # 0x5B # params @ [c]). unat b \<le> 0x7F \<and> unat b \<noteq> 13"
    using params parameter_bytes(2,3) c by auto
  have "input_chars ((0x1B # 0x5B # params @ [c]) @ rest) =
      map unat (0x1B # 0x5B # params @ [c]) @ input_tail rest"
    using ascii by (intro input_chars_ascii_prefix) simp_all
  then have long: "input_chars (0x1B # 0x5B # params @ c # rest) =
      27 # 91 # map unat params @ unat c # input_tail rest"
    by simp
  have "input_chars ([0x1B, 0x5B, c] @ rest) = map unat [0x1B, 0x5B, c] @ input_tail rest"
    using c by (intro input_chars_ascii_prefix) auto
  then have short: "input_chars (0x1B # 0x5B # c # rest) = 27 # 91 # [] @ unat c # input_tail rest"
    by simp
  have "main_loop (call_state this (0x1B # 0x5B # params @ c # rest)) =
      main_loop (call_state this (0x1B # 0x5B # c # rest))"
    using main_loop_escape_sequence [OF ps cmd, of "call_state this (0x1B # 0x5B # params @ c # rest)" "input_tail rest"]
      main_loop_escape_sequence [of "[]" "unat c" "call_state this (0x1B # 0x5B # c # rest)" "input_tail rest"]
      cmd long short
    by (simp add: call_state_chars)
  then show ?thesis
    by (simp add: process_def)
qed

lemma process_single_sequence:
  fixes params :: "byte list" and c :: byte
  assumes params: "\<forall>p \<in> set params. p = 0x3B \<or> (0x30 \<le> p \<and> p \<le> 0x39)"
    and c: "c \<in> {0x43, 0x44, 0x46, 0x48}"
  shows "snd (process this (0x1B # 0x5B # params @ [c])) =
    ReadInstance.truncate (snd (run_command (Some (unat c)) []
      (ReadInstance.extend this \<lparr>chars = [], response = [], shiftCount = 0\<rparr>)))"
proof -
  have cmd: "unat c \<in> {67, 68, 70, 72}"
    using c by auto
  have ps: "\<forall>p \<in> set (map unat params). is_parameter p"
    using params parameter_bytes(1) by auto
  have ascii: "\<forall>b \<in> set (0x1B # 0x5B # params @ [c]). unat b \<le> 0x7F \<and> unat b \<noteq> 13"
    using params parameter_bytes(2,3) c by auto
  have "input_chars ((0x1B # 0x5B # params @ [c]) @ []) =
      map unat (0x1B # 0x5B # params @ [c]) @ input_tail []"
    using ascii by (intro input_chars_ascii_prefix) simp_all
  then have long: "input_chars (0x1B # 0x5B # params @ [c]) = 27 # 91 # map unat params @ unat c # []"
    by simp
  define s where "s = ReadInstance.extend this \<lparr>chars = [], response = [], shiftCount = 0\<rparr>"
  obtain r3 s3 where rc: "run_command (Some (unat c)) [] s = (r3, s3)"
    by (cases "run_command (Some (unat c)) [] s")
  have s3: "s3 = snd (run_command (Some (unat c)) [] s)"
    using rc by simp
  have "chars s3 = []"
    unfolding s3 by (simp add: s_def ReadInstance.extend_def)
  then have stop: "main_loop s3 = (Inr (), s3)"
    by (subst main_loop.simps) simp
  have "main_loop (call_state this (0x1B # 0x5B # params @ [c])) =
      (case run_command (Some (unat c)) [] s of
         (Inl e, s3) \<Rightarrow> (Inl e, s3)
       | (Inr _, s3) \<Rightarrow> if hasEnded s3 then (Inr (), s3) else main_loop s3)"
    using main_loop_escape_sequence [OF ps cmd, of "call_state this (0x1B # 0x5B # params @ [c])" "[]"] long
    by (simp add: call_state_chars s_def)
  with rc stop show ?thesis
    by (cases r3) (simp_all add: snd_process s_def [symmetric])
qed

lemma cursor_sequences_keep_line:
  assumes "\<forall>c \<in> set cs. c \<in> {67, 68, 70, 72}"
    and "chars s = concat (map (\<lambda>c. [27, 91, c]) cs)"
  shows "backward (snd (main_loop s)) @ forward (snd (main_loop s)) = backward s @ forward s \<and>
         hasEnded (snd (main_loop s)) = hasEnded s"
  using assms
proof (induction cs arbitrary: s)
  case Nil
  then show ?case
    by (subst (1 2 3) main_loop.simps) simp
next
  case (Cons c cs)
  define rest where "rest = concat (map (\<lambda>c. [27, 91, c]) cs)"
  have c: "c \<in> {67, 68, 70, 72}" and cs: "\<forall>c \<in> set cs. c \<in> {67, 68, 70, 72}"
    using Cons.prems(1) by simp_all
  have chars: "chars s = 27 # 91 # [] @ c # rest"
    using Cons.prems(2) by (simp add: rest_def)
  define s0 where "s0 = s\<lparr>chars := rest\<rparr>"
  obtain r3 s3 where rc: "run_command (Some c) [] s0 = (r3, s3)"
    by (cases "run_command (Some c) [] s0")
  have s3: "s3 = snd (run_command (Some c) [] s0)"
    using rc by simp
  have line: "backward s3 @ forward s3 = backward s @ forward s"
    unfolding s3 by (simp add: line_run_command) (simp add: s0_def)
  have ended: "hasEnded s3 = hasEnded s"
    unfolding s3 by (simp add: s0_def)
  have chars3: "chars s3 = rest"
    unfolding s3 by (simp add: s0_def)
  have unfold: "main_loop s =
    (case run_command (Some c) [] s0 of
       (Inl e, s3) \<Rightarrow> (Inl e, s3)
     | (Inr _, s3) \<Rightarrow> if hasEnded s3 then (Inr (), s3) else main_loop s3)"
    unfolding s0_def using c chars by (intro main_loop_escape_sequence) simp_all
  show ?case
  proof (cases "\<exists>e. r3 = Inl e \<or> hasEnded s3")
    case True
    with unfold rc line ended show ?thesis
      by (cases r3) auto
  next
    case False
    then have "main_loop s = main_loop s3"
      using unfold rc by (cases r3) auto
    moreover have "backward (snd (main_loop s3)) @ forward (snd (main_loop s3)) = backward s3 @ forward s3 \<and>
         hasEnded (snd (main_loop s3)) = hasEnded s3"
      using cs chars3 unfolding rest_def by (rule Cons.IH)
    ultimately show ?thesis
      using line ended by simp
  qed
qed

lemma process_cursor_sequences:
  fixes cs :: "byte list"
  assumes "\<forall>c \<in> set cs. c \<in> {0x43, 0x44, 0x46, 0x48}"
  shows "line (snd (process this (concat (map (\<lambda>c. [0x1B, 0x5B, c]) cs)))) = line this \<and>
    hasEnded (snd (process this (concat (map (\<lambda>c. [0x1B, 0x5B, c]) cs)))) = hasEnded this"
proof -
  define bytes where "bytes = concat (map (\<lambda>c. [0x1B, 0x5B, c]) cs)"
  have ascii: "\<forall>b \<in> set bytes. unat b \<le> 0x7F \<and> unat b \<noteq> 13"
    using assms by (auto simp add: bytes_def)
  have chars: "input_chars bytes = concat (map (\<lambda>c. [27, 91, c]) (map unat cs))"
  proof (cases "bytes = []")
    case True
    then have "cs = []"
      by (cases cs) (simp_all add: bytes_def)
    then show ?thesis
      by (simp add: bytes_def input_chars_def TextDecoder_decode_def replaceAll_CR_def)
  next
    case False
    have "input_chars (bytes @ []) = map unat bytes @ input_tail []"
      using ascii False by (rule input_chars_ascii_prefix)
    then show ?thesis
      by (simp add: bytes_def map_concat comp_def)
  qed
  define s where "s = call_state this bytes"
  have "backward (snd (main_loop s)) @ forward (snd (main_loop s)) = backward s @ forward s \<and>
         hasEnded (snd (main_loop s)) = hasEnded s"
    using assms by (intro cursor_sequences_keep_line [where cs = "map unat cs"]) (auto simp add: s_def chars)
  then show ?thesis
    unfolding bytes_def [symmetric]
    by (simp add: snd_process line_def s_def)
qed

lemma process_ended_only_on_newline:
  assumes "hasEnded (snd (process this value))"
  shows "hasEnded this \<or> 10 \<in> set (input_chars value)"
proof -
  define s where "s = call_state this value"
  have "edits s (snd (main_loop s))"
    by (rule edits_main_loop)
  then have "hasEnded (snd (main_loop s)) \<longrightarrow> hasEnded s \<or> 10 \<in> set (chars s)"
    using edits_ended by blast
  moreover have "hasEnded (snd (main_loop s))"
    using assms by (simp add: snd_process s_def)
  ultimately show ?thesis
    by (auto simp add: s_def)
qed

subsection \<open>Evaluating calls on concrete input\<close>

lemmas eval_defs = process_def call_state_def input_chars_def new_ReadInstance_def
  TextDecoder_decode_def utf8_byte_def utf8_lead_def replaceAll_CR_def
  ReadInstance.extend_def ReadInstance.truncate_def main_loop.simps read_Cons read_Nil
  backspace_def js_length_def match_last_def replace_last_def LineTerminator_def getLength_def
  write_echo_def bell_def Let_def run_command_def match_first_def replace_first_def
  charCodeAt0_def digits_small line_def backspace_on_empty.simps escape_loop.simps
  read_on_empty_Cons read_on_empty_Nil escape_loop_on_empty.simps

subsection \<open>Backspace and the bell\<close>

text \<open>
  Claim C8 fails as stated. Typing two BEL characters, deleting both and pressing
  backspace once more is one call in which a backspace arrives with \<open>backward\<close> empty;
  the echo of that call holds two bell characters (both typed), and \<open>bell()\<close> adds none,
  because the echo already contains one.
\<close>

theorem bell_marker_counterexample:
  "backspace_on_empty (call_state new_ReadInstance [0x07, 0x07, 0x7F, 0x7F, 0x7F]) \<and>
   process new_ReadInstance [0x07, 0x07, 0x7F, 0x7F, 0x7F] =
     (Inr [7, 7, 27, 91, 49, 68, 27, 91, 49, 68, 32, 32, 27, 91, 50, 68], new_ReadInstance) \<and>
   count_list [7, 7, 27, 91, 49, 68, 27, 91, 49, 68, 32, 32, 27, 91, 50, 68] (7 :: nat) = 2"
  by (simp add: eval_defs)

text \<open>
  Claim C8, amended. Feeding a fresh instance the bytes \<open>a\<close>, \<open>b\<close>, DEL, newline ends
  with the line \<open>a\<close>, in one call as well as one call per byte. The echo of the single
  call is \<open>ab\<close>, cursor-left by one (\<open>ESC [ 1 D\<close>), the newline, a blank and cursor-left
  again; the echo of the DEL call alone is cursor-left by one, a blank and cursor-left
  again; neither holds a bell. Whenever \<open>read\<close> takes a
  backspace while \<open>backward\<close> is empty, both buffers stay as they are and the bell is
  appended to the echo unless the echo of this call already holds one. In a call whose
  decoded input and whose buffers hold no BEL character and in which a backspace is
  taken while \<open>backward\<close> is empty, by the loop of \<open>process\<close> or inside an escape sequence
  (\<open>backspace_on_empty\<close>), the echo returned holds exactly one bell, however often that
  happens in the call.
\<close>

theorem backspace_on_empty_rings_once:
  "(process new_ReadInstance [0x61, 0x62, 0x7F, 0x0A] =
      (Inr [97, 98, 27, 91, 49, 68, 10, 32, 27, 91, 49, 68],
       \<lparr>forward = [], backward = [97], hasEnded = True\<rparr>) \<and>
    process new_ReadInstance [0x61] =
      (Inr [97], \<lparr>forward = [], backward = [97], hasEnded = False\<rparr>) \<and>
    process \<lparr>forward = [], backward = [97], hasEnded = False\<rparr> [0x62] =
      (Inr [98], \<lparr>forward = [], backward = [97, 98], hasEnded = False\<rparr>) \<and>
    process \<lparr>forward = [], backward = [97, 98], hasEnded = False\<rparr> [0x7F] =
      (Inr [27, 91, 49, 68, 32, 27, 91, 49, 68], \<lparr>forward = [], backward = [97], hasEnded = False\<rparr>) \<and>
    process \<lparr>forward = [], backward = [97], hasEnded = False\<rparr> [0x0A] =
      (Inr [10], \<lparr>forward = [], backward = [97], hasEnded = True\<rparr>) \<and>
    line \<lparr>forward = [], backward = [97], hasEnded = True\<rparr> = [97])
   \<and>
   (chars s = c # rest \<and> (c = 0x7F \<or> c = 0x08) \<and> backward s = [] \<longrightarrow>
      read push s = (Inr (Some c), bell (s\<lparr>chars := rest\<rparr>)) \<and>
      forward (snd (read push s)) = forward s \<and>
      backward (snd (read push s)) = backward s \<and>
      response (snd (read push s)) =
        (if 7 \<in> set (response s) then response s else response s @ [7]))
   \<and>
   (7 \<notin> set (input_chars bytes) \<and> 7 \<notin> set (forward this) \<and> 7 \<notin> set (backward this) \<and>
    backspace_on_empty (call_state this bytes) \<and> fst (process this bytes) = Inr echo \<longrightarrow>
      count_list echo 7 = 1)"
proof -
  have example:
    "process new_ReadInstance [0x61, 0x62, 0x7F, 0x0A] =
      (Inr [97, 98, 27, 91, 49, 68, 10, 32, 27, 91, 49, 68],
       \<lparr>forward = [], backward = [97], hasEnded = True\<rparr>)"
    "process new_ReadInstance [0x61] =
      (Inr [97], \<lparr>forward = [], backward = [97], hasEnded = False\<rparr>)"
    "process \<lparr>forward = [], backward = [97], hasEnded = False\<rparr> [0x62] =
      (Inr [98], \<lparr>forward = [], backward = [97, 98], hasEnded = False\<rparr>)"
    "process \<lparr>forward = [], backward = [97, 98], hasEnded = False\<rparr> [0x7F] =
      (Inr [27, 91, 49, 68, 32, 27, 91, 49, 68], \<lparr>forward = [], backward = [97], hasEnded = False\<rparr>)"
    "process \<lparr>forward = [], backward = [97], hasEnded = False\<rparr> [0x0A] =
      (Inr [10], \<lparr>forward = [], backward = [97], hasEnded = True\<rparr>)"
    "line \<lparr>forward = [], backward = [97], hasEnded = True\<rparr> = [97]"
    by (simp_all add: eval_defs)
  have step: "read push s = (Inr (Some c), bell (s\<lparr>chars := rest\<rparr>)) \<and>
      forward (snd (read push s)) = forward s \<and>
      backward (snd (read push s)) = backward s \<and>
      response (snd (read push s)) =
        (if 7 \<in> set (response s) then response s else response s @ [7])"
    if "chars s = c # rest" "c = 0x7F \<or> c = 0x08" "backward s = []"
    using read_backspace_on_empty [OF that, of push] by (simp add: bell_def)
  have call: "count_list echo 7 = 1"
    if "7 \<notin> set (input_chars bytes)" "7 \<notin> set (forward this)" "7 \<notin> set (backward this)"
      "backspace_on_empty (call_state this bytes)" "fst (process this bytes) = Inr echo"
    using that by (rule process_one_bell)
  from example step call show ?thesis
    by blast
qed

theorem backspace_on_empty_rings_once_witness:
  "read True \<lparr>forward = [99], backward = [], hasEnded = False,
              chars = [0x7F, 0x08], response = [], shiftCount = 0\<rparr> =
     (Inr (Some 0x7F),
      \<lparr>forward = [99], backward = [], hasEnded = False,
       chars = [0x08], response = [7], shiftCount = 0\<rparr>)
   \<and> backspace_on_empty (call_state new_ReadInstance [0x7F, 0x08, 0x7F])
   \<and> process new_ReadInstance [0x7F, 0x08, 0x7F] = (Inr [7], new_ReadInstance)
   \<and> backspace_on_empty (call_state new_ReadInstance [0x1B, 0x7F])
   \<and> process new_ReadInstance [0x1B, 0x7F] = (Inr [7], new_ReadInstance)
   \<and> count_list [7 :: nat] 7 = 1"
proof -
  have a: "read True \<lparr>forward = [99], backward = [], hasEnded = False,
              chars = [0x7F, 0x08], response = [], shiftCount = 0\<rparr> =
     (Inr (Some 0x7F),
      \<lparr>forward = [99], backward = [], hasEnded = False,
       chars = [0x08], response = [7], shiftCount = 0\<rparr>)"
    using backspace_on_empty_rings_once
      [of "\<lparr>forward = [99], backward = [], hasEnded = False,
              chars = [0x7F, 0x08], response = [], shiftCount = 0\<rparr>" "0x7F" "[0x08]" True]
    by (simp add: bell_def)
  have b: "backspace_on_empty (call_state new_ReadInstance [0x7F, 0x08, 0x7F])"
    and c: "process new_ReadInstance [0x7F, 0x08, 0x7F] = (Inr [7], new_ReadInstance)"
    and d: "7 \<notin> set (input_chars [0x7F, 0x08, 0x7F])"
    by (simp_all add: eval_defs)
  have e: "backspace_on_empty (call_state new_ReadInstance [0x1B, 0x7F])"
    and f: "process new_ReadInstance [0x1B, 0x7F] = (Inr [7], new_ReadInstance)"
    and g: "7 \<notin> set (input_chars [0x1B, 0x7F])"
    by (simp_all add: eval_defs)
  have "count_list [7 :: nat] 7 = 1"
    using backspace_on_empty_rings_once
      [where this = new_ReadInstance and bytes = "[0x7F, 0x08, 0x7F]" and echo = "[7]"] b c d
    by (simp add: new_ReadInstance_def)
  moreover have "count_list [7 :: nat] 7 = 1"
    using backspace_on_empty_rings_once
      [where this = new_ReadInstance and bytes = "[0x1B, 0x7F]" and echo = "[7]"] e f g
    by (simp add: new_ReadInstance_def)
  ultimately show ?thesis
    using a b c e f by blast
qed

subsection \<open>Cursor motion and the end of the line\<close>

text \<open>
  Claim C9. Whatever command ends an escape sequence, executing it leaves
  \<open>backward + forward\<close> as it was: the commands C, D, H and F only move characters from
  one buffer to the other, and every other command changes nothing. So a call fed any
  number of the sequences \<open>ESC [ C\<close>, \<open>ESC [ D\<close>, \<open>ESC [ H\<close>, \<open>ESC [ F\<close> returns with the same
  line and the same \<open>hasEnded\<close>. \<open>hasEnded\<close> is true after a call only if it was true
  before or the decoded input, in which \<open>\r\n\<close> and \<open>\r\<close> have become \<open>\n\<close>, holds a
  newline. The accessor \<open>line\<close> is \<open>backward + forward\<close>.
\<close>

theorem cursor_motion_keeps_line:
  "backward (snd (run_command command args s)) @ forward (snd (run_command command args s)) =
     backward s @ forward s
   \<and>
   ((\<forall>c \<in> set cs. c \<in> {0x43, 0x44, 0x46, 0x48}) \<longrightarrow>
      line (snd (process this (concat (map (\<lambda>c. [0x1B, 0x5B, c]) cs)))) = line this \<and>
      hasEnded (snd (process this (concat (map (\<lambda>c. [0x1B, 0x5B, c]) cs)))) = hasEnded this)
   \<and>
   (hasEnded (snd (process this bytes)) \<longrightarrow> hasEnded this \<or> 10 \<in> set (input_chars bytes))
   \<and>
   line this = backward this @ forward this"
  using line_run_command [of command args s] process_cursor_sequences [of cs this]
    process_ended_only_on_newline [of this bytes]
  by (simp add: line_def)

theorem cursor_motion_keeps_line_witness:
  "snd (process \<lparr>forward = [99, 100], backward = [97, 98], hasEnded = False\<rparr>
          [0x1B, 0x5B, 0x44, 0x1B, 0x5B, 0x48, 0x1B, 0x5B, 0x43, 0x1B, 0x5B, 0x46]) =
     \<lparr>forward = [], backward = [97, 98, 99, 100], hasEnded = False\<rparr>
   \<and> line \<lparr>forward = [], backward = [97, 98, 99, 100], hasEnded = False\<rparr> =
       line \<lparr>forward = [99, 100], backward = [97, 98], hasEnded = False\<rparr>
   \<and> hasEnded (snd (process new_ReadInstance [0x61, 0x0D]))
   \<and> 10 \<in> set (input_chars [0x61, 0x0D])"
proof -
  have moved: "snd (process \<lparr>forward = [99, 100], backward = [97, 98], hasEnded = False\<rparr>
          [0x1B, 0x5B, 0x44, 0x1B, 0x5B, 0x48, 0x1B, 0x5B, 0x43, 0x1B, 0x5B, 0x46]) =
     \<lparr>forward = [], backward = [97, 98, 99, 100], hasEnded = False\<rparr>"
    by (simp add: eval_defs)
  have "line (snd (process \<lparr>forward = [99, 100], backward = [97, 98], hasEnded = False\<rparr>
          (concat (map (\<lambda>c. [0x1B, 0x5B, c]) [0x44, 0x48, 0x43, 0x46])))) =
       line \<lparr>forward = [99, 100], backward = [97, 98], hasEnded = False\<rparr>"
    using cursor_motion_keeps_line
      [where cs = "[0x44, 0x48, 0x43, 0x46]"
         and this = "\<lparr>forward = [99, 100], backward = [97, 98], hasEnded = False\<rparr>"]
    by simp
  then have same: "line \<lparr>forward = [], backward = [97, 98, 99, 100], hasEnded = False\<rparr> =
       line \<lparr>forward = [99, 100], backward = [97, 98], hasEnded = False\<rparr>"
    using moved by simp
  have ended: "hasEnded (snd (process new_ReadInstance [0x61, 0x0D]))"
    by (simp add: eval_defs)
  then have "10 \<in> set (input_chars [0x61, 0x0D])"
    using cursor_motion_keeps_line [where this = new_ReadInstance and bytes = "[0x61, 0x0D]"]
    by (simp add: new_ReadInstance_def)
  with moved same ended show ?thesis
    by blast
qed

subsection \<open>Parameters of an escape sequence\<close>

lemma moved_by_command:
  fixes params :: "byte list"
  assumes params: "\<forall>p \<in> set params. p = 0x3B \<or> (0x30 \<le> p \<and> p \<le> 0x39)"
  shows "forward this = x # fs \<and> \<not> LineTerminator x \<longrightarrow>
      snd (process this (0x1B # 0x5B # params @ [0x43])) =
        this\<lparr>backward := backward this @ [x], forward := fs\<rparr>"
    and "backward this = bs @ [x] \<and> \<not> LineTerminator x \<longrightarrow>
      snd (process this (0x1B # 0x5B # params @ [0x44])) =
        this\<lparr>forward := x # forward this, backward := bs\<rparr>"
    and "snd (process this (0x1B # 0x5B # params @ [0x48])) =
        this\<lparr>forward := backward this @ forward this, backward := []\<rparr>"
    and "snd (process this (0x1B # 0x5B # params @ [0x46])) =
        this\<lparr>backward := backward this @ forward this, forward := []\<rparr>"
  by (auto simp add: process_single_sequence [OF params] run_command_def match_first_def
      match_last_def replace_first_def replace_last_def Let_def write_echo_def bell_def
      ReadInstance.extend_def ReadInstance.truncate_def)

text \<open>
  The parameter bytes of an escape sequence, digits and semicolons, are read and never
  used: for every parameter string and each of the commands C, D, F and H, a call on
  \<open>ESC [ parameters command\<close> followed by any input returns what the call on
  \<open>ESC [ command\<close> followed by the same input returns, echo, buffers and errors alike.
  Whatever the parameters, H and F move a whole buffer, and C and D move the character
  next to the cursor when the regular expression \<open>.\<close> matches it, which it does unless
  the character is a line terminator.
\<close>

lemma escape_parameters_are_ignored:
  fixes params :: "byte list" and c :: byte
  shows "(\<forall>p \<in> set params. p = 0x3B \<or> (0x30 \<le> p \<and> p \<le> 0x39)) \<longrightarrow>
    (c \<in> {0x43, 0x44, 0x46, 0x48} \<longrightarrow>
       process this (0x1B # 0x5B # params @ c # rest) = process this (0x1B # 0x5B # c # rest))
    \<and>
    (forward this = x # fs \<and> \<not> LineTerminator x \<longrightarrow>
       snd (process this (0x1B # 0x5B # params @ [0x43])) =
         this\<lparr>backward := backward this @ [x], forward := fs\<rparr>)
    \<and>
    (backward this = bs @ [y] \<and> \<not> LineTerminator y \<longrightarrow>
       snd (process this (0x1B # 0x5B # params @ [0x44])) =
         this\<lparr>forward := y # forward this, backward := bs\<rparr>)
    \<and>
    snd (process this (0x1B # 0x5B # params @ [0x48])) =
       this\<lparr>forward := backward this @ forward this, backward := []\<rparr>
    \<and>
    snd (process this (0x1B # 0x5B # params @ [0x46])) =
       this\<lparr>backward := backward this @ forward this, forward := []\<rparr>"
  using process_parameters_unused [of params c this rest]
    moved_by_command(1) [of params this x fs] moved_by_command(2) [of params this bs y]
    moved_by_command(3) [of params this] moved_by_command(4) [of params this]
  by blast

lemma escape_parameters_example:
  "process \<lparr>forward = [99, 100], backward = [97, 98], hasEnded = False\<rparr>
     [0x1B, 0x5B, 0x31, 0x32, 0x3B, 0x33, 0x44, 0x7A] =
   process \<lparr>forward = [99, 100], backward = [97, 98], hasEnded = False\<rparr>
     [0x1B, 0x5B, 0x44, 0x7A]
   \<and> process \<lparr>forward = [99, 100], backward = [97, 98], hasEnded = False\<rparr>
     [0x1B, 0x5B, 0x44, 0x7A] =
     (Inr [27, 91, 49, 68, 122, 98, 99, 100, 27, 91, 51, 68],
      \<lparr>forward = [98, 99, 100], backward = [97, 122], hasEnded = False\<rparr>)
   \<and> snd (process \<lparr>forward = [99, 100], backward = [97, 98], hasEnded = False\<rparr>
     [0x1B, 0x5B, 0x31, 0x32, 0x3B, 0x33, 0x43]) =
     \<lparr>forward = [100], backward = [97, 98, 99], hasEnded = False\<rparr>
   \<and> snd (process \<lparr>forward = [99, 100], backward = [97, 98], hasEnded = False\<rparr>
     [0x1B, 0x5B, 0x31, 0x32, 0x3B, 0x33, 0x44]) =
     \<lparr>forward = [98, 99, 100], backward = [97], hasEnded = False\<rparr>"
proof -
  define start :: ReadInstance where
    "start = \<lparr>forward = [99, 100], backward = [97, 98], hasEnded = False\<rparr>"
  have params: "\<forall>p \<in> set [0x31, 0x32, 0x3B, 0x33 :: byte]. p = 0x3B \<or> (0x30 \<le> p \<and> p \<le> 0x39)"
    by simp
  have command: "(0x44 :: byte) \<in> {0x43, 0x44, 0x46, 0x48}"
    by simp
  have first: "forward start = 99 # [100] \<and> \<not> LineTerminator 99"
    and last: "backward start = [97] @ [98] \<and> \<not> LineTerminator 98"
    by (simp_all add: start_def LineTerminator_def)
  note ignored = escape_parameters_are_ignored
    [where params = "[0x31, 0x32, 0x3B, 0x33]" and c = "0x44" and this = start and rest = "[0x7A]"
       and x = 99 and fs = "[100]" and bs = "[97]" and y = 98, THEN mp, OF params]
  have "process start ([0x1B, 0x5B] @ [0x31, 0x32, 0x3B, 0x33] @ 0x44 # [0x7A]) =
      process start (0x1B # 0x5B # 0x44 # [0x7A])"
    using ignored [THEN conjunct1, THEN mp, OF command] by simp
  moreover have "process start [0x1B, 0x5B, 0x44, 0x7A] =
     (Inr [27, 91, 49, 68, 122, 98, 99, 100, 27, 91, 51, 68],
      \<lparr>forward = [98, 99, 100], backward = [97, 122], hasEnded = False\<rparr>)"
    by (simp add: eval_defs start_def)
  moreover have "snd (process start [0x1B, 0x5B, 0x31, 0x32, 0x3B, 0x33, 0x43]) =
     \<lparr>forward = [100], backward = [97, 98, 99], hasEnded = False\<rparr>"
    using ignored [THEN conjunct2, THEN conjunct1, THEN mp, OF first] by (simp add: start_def)
  moreover have "snd (process start [0x1B, 0x5B, 0x31, 0x32, 0x3B, 0x33, 0x44]) =
     \<lparr>forward = [98, 99, 100], backward = [97], hasEnded = False\<rparr>"
    using ignored [THEN conjunct2, THEN conjunct2, THEN conjunct1, THEN mp, OF last]
    by (simp add: start_def)
  ultimately show ?thesis
    by (simp add: start_def)
qed

text \<open>
  Claim C10, at a line separator next to the cursor. Typing U+2028 (the bytes E2 80 A8)
  puts the character into \<open>backward\<close>. The sequence \<open>ESC [ 5 D\<close> then moves nothing: the
  regular expression \<open>.\<close> does not match a line terminator, \<open>match\<close> answers \<open>null\<close> and the
  call throws a \<open>TypeError\<close>, where the claim has the sequence move one character. The
  same happens without parameters, and to \<open>ESC [ 5 C\<close> once \<open>ESC [ H\<close> has moved the
  character into \<open>forward\<close>.
\<close>

theorem cursor_command_throws_on_line_separator:
  "process new_ReadInstance [0xE2, 0x80, 0xA8] =
     (Inr [8232], \<lparr>forward = [], backward = [8232], hasEnded = False\<rparr>) \<and>
   process \<lparr>forward = [], backward = [8232], hasEnded = False\<rparr> [0x1B, 0x5B, 0x35, 0x44] =
     (Inl TypeError, \<lparr>forward = [], backward = [8232], hasEnded = False\<rparr>) \<and>
   process \<lparr>forward = [], backward = [8232], hasEnded = False\<rparr> [0x1B, 0x5B, 0x44] =
     (Inl TypeError, \<lparr>forward = [], backward = [8232], hasEnded = False\<rparr>) \<and>
   process \<lparr>forward = [], backward = [8232], hasEnded = False\<rparr> [0x1B, 0x5B, 0x48] =
     (Inr [27, 91, 49, 68, 8232, 27, 91, 49, 68],
      \<lparr>forward = [8232], backward = [], hasEnded = False\<rparr>) \<and>
   process \<lparr>forward = [8232], backward = [], hasEnded = False\<rparr> [0x1B, 0x5B, 0x35, 0x43] =
     (Inl TypeError, \<lparr>forward = [8232], backward = [], hasEnded = False\<rparr>) \<and>
   process \<lparr>forward = [8232], backward = [], hasEnded = False\<rparr> [0x1B, 0x5B, 0x43] =
     (Inl TypeError, \<lparr>forward = [8232], backward = [], hasEnded = False\<rparr>)"
  by (simp add: eval_defs)

end
